theory Spec2Isabelle
  imports Complex_Main "HOL-Library.Sublist" "HOL-Library.Char_ord" "HOL-Library.List_Lexorder"
    "HOL-Library.Log_Nat"
begin

section \<open>Values and rows returned by the time-series store\<close>

text \<open>
  The rows handed back by the store client are untyped objects (\<open>any\<close>). The services
  read four properties of them: \<open>imei\<close>, \<open>_field\<close>, \<open>_value\<close> and \<open>_time\<close>. A property
  is absent (\<open>undefined\<close>), a string or a number. A JavaScript number is a double,
  modelled by the real it denotes. \<open>_time\<close> is modelled by the epoch milliseconds of
  \<open>new Date(row._time)\<close>.
\<close>

datatype jsval = JUndefined | JStr string | JNum real

record row =
  r_imei :: jsval
  r_field :: jsval
  r_value :: jsval
  r_time :: int

text \<open>\<open>String.prototype.includes\<close>: the argument occurs as a contiguous substring.\<close>

primrec str_includes :: "string \<Rightarrow> string \<Rightarrow> bool" where
  "str_includes [] sub = (sub = [])"
| "str_includes (c # cs) sub = (prefix sub (c # cs) \<or> str_includes cs sub)"

section \<open>Store client: \<open>InfluxService.executeQuery\<close>\<close>

text \<open>
  The Flux text of a query is a fixed template around a few interpolated arguments; a
  query is represented by its template and arguments.
\<close>

datatype query =
    ImeisQuery
  | ImeisAlternativeQuery
  | FieldsQuery string
  | FuelSensorsQuery string
  | ImeiCheckQuery string
  | AvailabilityQuery string string string
  | TelemetryQuery string string string "string list" string
  | RecommendedRangeQuery string

text \<open>
  One call of \<open>queryApi.iterateRows\<close> streams some rows and then either ends or throws
  an error with a message. The store is the environment: it answers the \<open>n\<close>-th call
  of the process for a given query.
\<close>

type_synonym attempt = "row list \<times> string option"
type_synonym store = "nat \<Rightarrow> query \<Rightarrow> attempt"

datatype event =
    Iterate query
  | SetConnected bool
  | Sleep nat
  | WarnTruncated

text \<open>
  The fields of the service that \<open>executeQuery\<close> reads and writes, together with the
  number of \<open>iterateRows\<close> calls made so far and the trace of effects: calls to the
  store, assignments to \<open>isConnected\<close>, \<open>setTimeout\<close> delays in milliseconds, and the
  truncation warning. The time stamp \<open>lastConnectionTest\<close> and the other log lines are
  left out.
\<close>

record influx =
  queryApi :: bool
  isConnected :: bool
  iterations :: nat
  trace :: "event list"

datatype qerror =
    NotInitialized
  | QueryTimeout
  | AuthenticationFailed
  | NotFound
  | ConnectionFailed
  | QuerySyntax string
  | QueryFailed string
  | AllRetriesFailed

definition maxRetries :: nat where
  "maxRetries = 3"

text \<open>
  The \<open>for await\<close> loop: each row is pushed, and the loop breaks as soon as the buffer
  holds more than 150000 rows. The flag tells whether the loop broke.
\<close>

fun iterateRows :: "row list \<Rightarrow> row list \<Rightarrow> row list \<times> bool" where
  "iterateRows result [] = (result, False)"
| "iterateRows result (r # rows) =
     (let result' = result @ [r]
      in if length result' > 150000 then (result', True) else iterateRows result' rows)"

text \<open>
  The \<open>while (retryCount <= maxRetries)\<close> loop. \<open>result\<close> is the buffer declared before
  the loop. An error of the stream is only met when the loop did not break first.
\<close>

function attemptLoop ::
  "store \<Rightarrow> query \<Rightarrow> row list \<Rightarrow> nat \<Rightarrow> influx \<Rightarrow> (qerror + row list) \<times> influx" where
  "attemptLoop st q result retryCount w =
     (if retryCount \<le> maxRetries then
        (let (rows, failure) = st (iterations w) q;
             w1 = w\<lparr>iterations := Suc (iterations w), trace := trace w @ [Iterate q]\<rparr>;
             (result', truncated) = iterateRows result rows;
             w2 = (if truncated then w1\<lparr>trace := trace w1 @ [WarnTruncated]\<rparr> else w1)
         in case (if truncated then None else failure) of
              None \<Rightarrow>
                (Inr result',
                 if \<not> isConnected w2
                 then w2\<lparr>isConnected := True, trace := trace w2 @ [SetConnected True]\<rparr>
                 else w2)
            | Some msg \<Rightarrow>
                (let w3 = w2\<lparr>isConnected := False, trace := trace w2 @ [SetConnected False]\<rparr>
                 in if str_includes msg ''timeout'' then
                      (if retryCount < maxRetries
                       then attemptLoop st q result' (Suc retryCount)
                              (w3\<lparr>trace := trace w3 @ [Sleep (2000 * Suc retryCount)]\<rparr>)
                       else (Inl QueryTimeout, w3))
                    else if str_includes msg ''unauthorized'' \<or> str_includes msg ''401'' then
                      (Inl AuthenticationFailed, w3)
                    else if str_includes msg ''not found'' \<or> str_includes msg ''404'' then
                      (Inl NotFound, w3)
                    else if str_includes msg ''connection'' \<or> str_includes msg ''ENOTFOUND''
                            \<or> str_includes msg ''ECONNREFUSED'' then
                      (if retryCount < maxRetries
                       then attemptLoop st q result' (Suc retryCount)
                              (w3\<lparr>trace := trace w3 @ [Sleep (2000 * Suc retryCount)]\<rparr>)
                       else (Inl ConnectionFailed, w3))
                    else if str_includes msg ''invalid query'' \<or> str_includes msg ''syntax error'' then
                      (Inl (QuerySyntax msg), w3)
                    else (Inl (QueryFailed msg), w3)))
      else (Inl AllRetriesFailed, w))"
  by pat_completeness auto
termination
  by (relation "measure (\<lambda>(st, q, result, retryCount, w). Suc maxRetries - retryCount)") auto

declare attemptLoop.simps [simp del]

definition executeQuery :: "store \<Rightarrow> query \<Rightarrow> influx \<Rightarrow> (qerror + row list) \<times> influx" where
  "executeQuery st q w =
     (if \<not> queryApi w then (Inl NotInitialized, w) else attemptLoop st q [] 0 w)"


text \<open>
  The failure messages after which the loop tries again while \<open>retryCount < maxRetries\<close>:
  the timeout branch, and the connection branch when neither of the two branches tested
  before it applies.
\<close>

definition retried :: "string \<Rightarrow> bool" where
  "retried msg =
     (str_includes msg ''timeout''
      \<or> (\<not> (str_includes msg ''unauthorized'' \<or> str_includes msg ''401'')
         \<and> \<not> (str_includes msg ''not found'' \<or> str_includes msg ''404'')
         \<and> (str_includes msg ''connection'' \<or> str_includes msg ''ENOTFOUND''
              \<or> str_includes msg ''ECONNREFUSED'')))"

section \<open>JavaScript helpers used by \<open>TelemetryService\<close>\<close>

text \<open>Truthiness of a value, and \<open>a || b\<close>.\<close>

fun truthy :: "jsval \<Rightarrow> bool" where
  "truthy JUndefined = False"
| "truthy (JStr s) = (s \<noteq> [])"
| "truthy (JNum x) = (x \<noteq> 0)"

definition js_or :: "jsval \<Rightarrow> jsval \<Rightarrow> jsval" where
  "js_or a b = (if truthy a then a else b)"

text \<open>\<open>String.prototype.trim\<close> over the white space of the single-byte range.\<close>

definition isWhiteSpace :: "char \<Rightarrow> bool" where
  "isWhiteSpace c = (c \<in> set [CHR 0x09, CHR 0x0A, CHR 0x0B, CHR 0x0C, CHR 0x0D, CHR 0x20, CHR 0xA0])"

definition trim :: "string \<Rightarrow> string" where
  "trim s = rev (dropWhile isWhiteSpace (rev (dropWhile isWhiteSpace s)))"

text \<open>\<open>[...new Set(xs)]\<close>: the first occurrence of each element, in order of insertion.\<close>

definition uniq :: "'a list \<Rightarrow> 'a list" where
  "uniq xs = rev (remdups (rev xs))"

text \<open>\<open>s.replace(pat, rep)\<close> with a string pattern: the first occurrence only.\<close>

fun replaceFirst :: "string \<Rightarrow> string \<Rightarrow> string \<Rightarrow> string" where
  "replaceFirst pat rep [] = (if pat = [] then rep else [])"
| "replaceFirst pat rep (c # cs) =
     (if prefix pat (c # cs) then rep @ drop (length pat) (c # cs)
      else c # replaceFirst pat rep cs)"

text \<open>\<open>Math.round\<close>: the nearest integer, a half rounded up.\<close>

definition math_round :: "real \<Rightarrow> real" where
  "math_round x = of_int \<lfloor>x + 1 / 2\<rfloor>"

text \<open>
  The products and quotients that the services compute on parsed values, and on the time
  span of the availability probe, are operations on doubles: their results are rounded.
  The two operations belong to the runtime and are taken as a parameter. \<open>Math.round\<close>, \<open>Math.floor\<close>, \<open>Math.max\<close>, \<open>Math.min\<close>
  and the comparisons return exact results on doubles.
\<close>

record arith =
  fmul :: "real \<Rightarrow> real \<Rightarrow> real"
  fdiv :: "real \<Rightarrow> real \<Rightarrow> real"

section \<open>Discovery: \<open>getImeis\<close>, \<open>getFields\<close>, \<open>getAvailableFuelSensors\<close>\<close>

datatype http_error = BadRequest string | InternalServerError qerror

text \<open>
  The chain \<open>map\<close>, \<open>filter\<close>, \<open>map\<close> of \<open>getImeis\<close> on one row: the value
  \<open>row.imei || row._value\<close> is kept when it is a string, non-empty, non-blank and longer
  than 5, and is then trimmed. \<open>None\<close> stands for a row that the filter drops.
\<close>

definition imeiOf :: "row \<Rightarrow> string option" where
  "imeiOf r =
     (case js_or (r_imei r) (r_value r) of
        JStr imei \<Rightarrow>
          if imei \<noteq> [] \<and> trim imei \<noteq> [] \<and> length imei > 5 then Some (trim imei) else None
      | _ \<Rightarrow> None)"

text \<open>The same chain in \<open>getImeisAlternative\<close>, on \<open>row.imei\<close>.\<close>

definition imeiAlternativeOf :: "row \<Rightarrow> string option" where
  "imeiAlternativeOf r =
     (case r_imei r of
        JStr imei \<Rightarrow> if imei \<noteq> [] \<and> trim imei \<noteq> [] then Some (trim imei) else None
      | _ \<Rightarrow> None)"

definition getImeisAlternative :: "store \<Rightarrow> influx \<Rightarrow> string list \<times> influx" where
  "getImeisAlternative st w =
     (case executeQuery st ImeisAlternativeQuery w of
        (Inl e, w') \<Rightarrow> ([], w')
      | (Inr result, w') \<Rightarrow> (sort (uniq (List.map_filter imeiAlternativeOf result)), w'))"

definition getImeis :: "store \<Rightarrow> influx \<Rightarrow> (http_error + string list) \<times> influx" where
  "getImeis st w =
     (case executeQuery st ImeisQuery w of
        (Inl e, w') \<Rightarrow> (Inl (InternalServerError e), w')
      | (Inr result, w') \<Rightarrow>
          (let uniqueImeis = sort (uniq (List.map_filter imeiOf result))
           in if length uniqueImeis = 0
              then (let (alt, w'') = getImeisAlternative st w' in (Inr alt, w''))
              else (Inr uniqueImeis, w')))"

definition fieldOf :: "row \<Rightarrow> string option" where
  "fieldOf r =
     (case js_or (r_field r) (r_value r) of
        JStr field \<Rightarrow> if field \<noteq> [] \<and> trim field \<noteq> [] then Some (trim field) else None
      | _ \<Rightarrow> None)"

definition getFields :: "store \<Rightarrow> string \<Rightarrow> influx \<Rightarrow> (http_error + string list) \<times> influx" where
  "getFields st imei w =
     (if imei = [] then (Inl (BadRequest ''IMEI is required and must be a string''), w)
      else case executeQuery st (FieldsQuery imei) w of
             (Inl e, w') \<Rightarrow> (Inl (InternalServerError e), w')
           | (Inr result, w') \<Rightarrow> (Inr (sort (uniq (List.map_filter fieldOf result))), w'))"

definition sensorOf :: "row \<Rightarrow> string option" where
  "sensorOf r =
     (case js_or (r_field r) (r_value r) of
        JStr field \<Rightarrow>
          if field \<noteq> [] \<and> str_includes field ''fls485_level_'' then Some (trim field) else None
      | _ \<Rightarrow> None)"

text \<open>
  The guard on \<open>imei\<close> throws outside the \<open>try\<close>; every failure inside it, also of the
  nested \<open>getFields\<close>, is caught and answered by the empty list.
\<close>

definition getAvailableFuelSensors ::
  "store \<Rightarrow> string \<Rightarrow> influx \<Rightarrow> (http_error + string list) \<times> influx" where
  "getAvailableFuelSensors st imei w =
     (if imei = [] then (Inl (BadRequest ''IMEI is required''), w)
      else case executeQuery st (FuelSensorsQuery imei) w of
             (Inl e, w') \<Rightarrow> (Inr [], w')
           | (Inr result, w') \<Rightarrow>
               (let uniqueSensors = sort (uniq (List.map_filter sensorOf result))
                in if length uniqueSensors = 0
                   then (case getFields st imei w' of
                           (Inl e, w'') \<Rightarrow> (Inr [], w'')
                         | (Inr allFields, w'') \<Rightarrow>
                             (Inr (filter (\<lambda>field. str_includes field ''fls485_level_'') allFields),
                              w''))
                   else (Inr uniqueSensors, w')))"

section \<open>Availability probe: \<open>checkDataAvailability\<close>\<close>

text \<open>
  \<open>estimatedPoints\<close> is \<open>None\<close> where the source computes \<open>NaN\<close> (a zero time span
  divided by a zero average interval). A positive time span divided by a zero average
  interval is \<open>Infinity\<close> in the source, and the minimum with 75000 is then 75000.
\<close>

record availability =
  hasData :: bool
  dataRange :: "(int \<times> int) option"
  availableFields :: "jsval list"
  estimatedPoints :: "real option"

definition noData :: availability where
  "noData = \<lparr>hasData = False, dataRange = None, availableFields = [], estimatedPoints = Some 0\<rparr>"

definition checkDataAvailability ::
  "arith \<Rightarrow> store \<Rightarrow> string \<Rightarrow> string \<Rightarrow> string \<Rightarrow> influx \<Rightarrow> availability \<times> influx" where
  "checkDataAvailability ar st imei start stop w =
     (case executeQuery st (ImeiCheckQuery imei) w of
        (Inl e, w1) \<Rightarrow> (noData, w1)
      | (Inr imeiCheck, w1) \<Rightarrow>
          if length imeiCheck = 0 then (noData, w1)
          else case executeQuery st (AvailabilityQuery imei start stop) w1 of
                 (Inl e, w2) \<Rightarrow> (noData, w2)
               | (Inr result, w2) \<Rightarrow>
                   if length result = 0 then (noData, w2)
                   else
                     (let times = sort (map r_time result);
                          fields = uniq (map r_field result);
                          timeSpan = real_of_int (last times - hd times);
                          avgInterval = fdiv ar timeSpan (real (length times))
                      in (\<lparr>hasData = True,
                            dataRange = Some (hd times, last times),
                            availableFields = fields,
                            estimatedPoints =
                              (if avgInterval = 0
                               then (if timeSpan = 0 then None else Some 75000)
                               else Some (min (fmul ar (of_int \<lfloor>fdiv ar timeSpan avgInterval\<rfloor>)
                                                 (real (length fields))) 75000))\<rparr>,
                          w2)))"

section \<open>Aggregation window: \<open>calculateAggregationWindow\<close>\<close>

text \<open>
  Dates are epoch milliseconds. \<open>hoursBetween\<close> is the local \<open>hours\<close> of the source. Its
  quotient is only compared with whole numbers of hours, and the difference of two dates
  is a whole number of milliseconds, so the exact quotient stands for the double one. The
  debug log lines of the function are not part of the model.
\<close>

record aggregation =
  window :: string
  isAggregated :: bool

definition hoursBetween :: "int \<Rightarrow> int \<Rightarrow> real" where
  "hoursBetween startDate endDate = real_of_int (endDate - startDate) / (1000 * 60 * 60)"

definition calculateAggregationWindow :: "int \<Rightarrow> int \<Rightarrow> aggregation" where
  "calculateAggregationWindow startDate endDate =
     (let hours = hoursBetween startDate endDate
      in if hours > 168 then
           \<lparr>window = ''|> aggregateWindow(every: 1h, fn: mean, createEmpty: false)'',
            isAggregated = True\<rparr>
         else if hours > 24 then
           \<lparr>window = ''|> aggregateWindow(every: 15m, fn: mean, createEmpty: false)'',
            isAggregated = True\<rparr>
         else if hours > 6 then
           \<lparr>window = ''|> aggregateWindow(every: 3m, fn: mean, createEmpty: false)'',
            isAggregated = True\<rparr>
         else \<lparr>window = [], isAggregated = False\<rparr>)"


section \<open>Result transformer: \<open>processResultData\<close>\<close>

text \<open>
  A timestamp is the epoch milliseconds that its ISO string denotes, so \<open>c.time === time\<close>
  is equality of the milliseconds. \<open>parseFloat\<close> is the function of the runtime, taken
  as a parameter: \<open>None\<close> is \<open>NaN\<close>. The counters \<open>processedPoints\<close> and
  \<open>skippedPoints\<close> only feed log lines and are left out.
\<close>

record timeValue =
  tv_time :: int
  tv_value :: real

record coordinate =
  c_time :: int
  c_lat :: "real option"
  c_lon :: "real option"

record trackPoint =
  tp_time :: int
  lat :: real
  lon :: real
  event_time :: int

record fuelSensorData =
  fs_data :: "timeValue list"
  sensorId :: string
  unit :: string

record dataInfo =
  totalPoints :: nat
  timeRange :: "string \<times> string"
  availableSensors :: "string list"
  aggregationUsed :: bool

record telemetryResponse =
  speed :: "timeValue list"
  main_power_voltage :: "timeValue list"
  fuelSensors :: "string \<rightharpoonup> fuelSensorData"
  track :: "trackPoint list"
  dataInfo :: dataInfo

definition createEmptyResponse :: "string \<Rightarrow> string \<Rightarrow> string list \<Rightarrow> telemetryResponse" where
  "createEmptyResponse start stop sensors =
     \<lparr>speed = [], main_power_voltage = [], fuelSensors = Map.empty, track = [],
      dataInfo = \<lparr>totalPoints = 0, timeRange = (start, stop), availableSensors = sensors,
                  aggregationUsed = False\<rparr>\<rparr>"

text \<open>
  \<open>coordinates.find(c => c.time === time)\<close> followed by the assignment to the entry
  found, or by the push of a new entry when there is none.
\<close>

fun mergeCoordinate :: "bool \<Rightarrow> int \<Rightarrow> real \<Rightarrow> coordinate list \<Rightarrow> coordinate list" where
  "mergeCoordinate isLat time v [] =
     [if isLat then \<lparr>c_time = time, c_lat = Some v, c_lon = None\<rparr>
      else \<lparr>c_time = time, c_lat = None, c_lon = Some v\<rparr>]"
| "mergeCoordinate isLat time v (c # cs) =
     (if c_time c = time
      then (if isLat then c\<lparr>c_lat := Some v\<rparr> else c\<lparr>c_lon := Some v\<rparr>) # cs
      else c # mergeCoordinate isLat time v cs)"

text \<open>
  The body of \<open>result.forEach\<close>, on the pair of \<open>data\<close> and \<open>coordinates\<close>. The
  lookup \<open>data[field]\<close> is the lookup of a string key in the map; a field that is not a
  string, or that names an inherited property of every object, is not a key of \<open>data\<close>
  (the main query returns only the fields it filters on).
\<close>

definition processRecord ::
  "arith \<Rightarrow> (jsval \<Rightarrow> real option) \<Rightarrow> (string \<rightharpoonup> timeValue list) \<times> coordinate list \<Rightarrow> row
     \<Rightarrow> (string \<rightharpoonup> timeValue list) \<times> coordinate list" where
  "processRecord ar parseFloat acc record =
     (let (data, coordinates) = acc;
          time = r_time record;
          field = r_field record
      in case parseFloat (r_value record) of
           None \<Rightarrow> (data, coordinates)
         | Some parsed \<Rightarrow>
             (let value =
                    (if field = JStr ''main_power_voltage''
                       then fdiv ar (math_round (fmul ar (fdiv ar parsed 1000) 100)) 100
                     else if field = JStr ''speed''
                       then max 0 (fdiv ar (math_round (fmul ar parsed 100)) 100)
                     else parsed)
              in if field = JStr ''latitude'' \<or> field = JStr ''longitude'' then
                   (if value = 0 \<or> value < - 180 \<or> value > 180 then (data, coordinates)
                    else if field = JStr ''latitude'' \<and> (value < - 90 \<or> value > 90)
                      then (data, coordinates)
                    else (data, mergeCoordinate (field = JStr ''latitude'') time value coordinates))
                 else (case field of
                         JStr name \<Rightarrow>
                           (case data name of
                              Some series \<Rightarrow>
                                (data(name \<mapsto> series @
                                   [\<lparr>tv_time = time,
                                      tv_value = fdiv ar (math_round (fmul ar value 100)) 100\<rparr>]),
                                 coordinates)
                            | None \<Rightarrow> (data, coordinates))
                       | _ \<Rightarrow> (data, coordinates))))"

text \<open>The \<open>filter\<close> and \<open>map\<close> that turn a buffered coordinate into a track point.\<close>

definition trackPointOf :: "coordinate \<Rightarrow> trackPoint option" where
  "trackPointOf coord =
     (case (c_lat coord, c_lon coord) of
        (Some la, Some lo) \<Rightarrow>
          if la \<noteq> 0 \<and> lo \<noteq> 0 \<and> la \<ge> - 90 \<and> la \<le> 90 \<and> lo \<ge> - 180 \<and> lo \<le> 180
          then Some \<lparr>tp_time = c_time coord, lat = la, lon = lo,
                      event_time = c_time coord div 1000\<rparr>
          else None
      | _ \<Rightarrow> None)"

text \<open>
  \<open>Array.prototype.sort\<close> with the comparator on the timestamps is a stable sort on the
  key \<open>tp_time\<close>.
\<close>

definition trackOf :: "coordinate list \<Rightarrow> trackPoint list" where
  "trackOf coordinates = sort_key tp_time (List.map_filter trackPointOf coordinates)"

definition initialData :: "string list \<Rightarrow> (string \<rightharpoonup> timeValue list)" where
  "initialData sensors =
     foldl (\<lambda>data field. data(field \<mapsto> [])) Map.empty
       ([''speed'', ''main_power_voltage''] @ sensors)"

definition seriesOf :: "(string \<rightharpoonup> timeValue list) \<Rightarrow> string \<Rightarrow> timeValue list" where
  "seriesOf data name = (case data name of Some series \<Rightarrow> series | None \<Rightarrow> [])"

definition fuelSensorsOf ::
  "(string \<rightharpoonup> timeValue list) \<Rightarrow> string list \<Rightarrow> (string \<rightharpoonup> fuelSensorData)" where
  "fuelSensorsOf data sensors =
     foldl (\<lambda>fuel sensor.
              (let sensorNumber = replaceFirst ''fls485_level_'' [] sensor
               in case data sensor of
                    Some series \<Rightarrow>
                      if length series > 0
                      then fuel(''level_'' @ sensorNumber \<mapsto>
                             \<lparr>fs_data = series, sensorId = sensorNumber, unit = ''units''\<rparr>)
                      else fuel
                  | None \<Rightarrow> fuel))
       Map.empty sensors"

definition processResultData ::
  "arith \<Rightarrow> (jsval \<Rightarrow> real option) \<Rightarrow> row list \<Rightarrow> string \<Rightarrow> string \<Rightarrow> string list \<Rightarrow> bool
     \<Rightarrow> telemetryResponse" where
  "processResultData ar parseFloat result start stop availableFuelSensors aggregation =
     (let (data, coordinates) =
            foldl (processRecord ar parseFloat) (initialData availableFuelSensors, []) result;
          points = trackOf coordinates;
          keys = uniq ([''speed'', ''main_power_voltage''] @ availableFuelSensors)
      in \<lparr>speed = seriesOf data ''speed'',
          main_power_voltage = seriesOf data ''main_power_voltage'',
          fuelSensors = fuelSensorsOf data availableFuelSensors,
          track = points,
          dataInfo =
            \<lparr>totalPoints = sum_list (map (\<lambda>k. length (seriesOf data k)) keys) + length points,
             timeRange = (start, stop),
             availableSensors = availableFuelSensors,
             aggregationUsed = aggregation\<rparr>\<rparr>)"

section \<open>Main retrieval: \<open>getTelemetryData\<close>\<close>

text \<open>
  \<open>parseDate\<close> is \<open>new Date(s).getTime()\<close> of the runtime, taken as a parameter: \<open>None\<close>
  is an invalid date.
\<close>

definition getTelemetryData ::
  "arith \<Rightarrow> (string \<Rightarrow> int option) \<Rightarrow> (jsval \<Rightarrow> real option) \<Rightarrow> store \<Rightarrow> string \<Rightarrow> string
     \<Rightarrow> string \<Rightarrow> influx \<Rightarrow> (http_error + telemetryResponse) \<times> influx" where
  "getTelemetryData ar parseDate parseFloat st imei start stop w =
     (if imei = [] \<or> start = [] \<or> stop = [] then
        (Inl (BadRequest ''IMEI, start, and end dates are required''), w)
      else case (parseDate start, parseDate stop) of
        (Some startDate, Some endDate) \<Rightarrow>
          if startDate \<ge> endDate then
            (Inl (BadRequest ''Start date must be before end date''), w)
          else if real_of_int (endDate - startDate) / (1000 * 60 * 60 * 24) > 60 then
            (Inl (BadRequest ''Maximum time range is 60 days. Please use a smaller range.''), w)
          else
            (let (dataCheck, w1) = checkDataAvailability ar st imei start stop w
             in if \<not> hasData dataCheck then (Inr (createEmptyResponse start stop []), w1)
                else case getAvailableFuelSensors st imei w1 of
                  (Inl e, w2) \<Rightarrow> (Inl e, w2)
                | (Inr availableFuelSensors, w2) \<Rightarrow>
                    (let aggregationConfig = calculateAggregationWindow startDate endDate;
                         allFields = [''speed'', ''latitude'', ''longitude'', ''main_power_voltage'']
                                       @ availableFuelSensors
                     in case executeQuery st
                               (TelemetryQuery imei start stop allFields (window aggregationConfig))
                               w2 of
                          (Inl e, w3) \<Rightarrow> (Inl (InternalServerError e), w3)
                        | (Inr result, w3) \<Rightarrow>
                            if length result = 0
                            then (Inr (createEmptyResponse start stop availableFuelSensors), w3)
                            else (Inr (processResultData ar parseFloat result start stop
                                         availableFuelSensors (isAggregated aggregationConfig)),
                                  w3)))
      | _ \<Rightarrow> (Inl (BadRequest ''Invalid date format. Use ISO 8601 format.''), w))"

section \<open>Recommended range: \<open>getRecommendedTimeRange\<close>\<close>

record recommendation =
  rec_start :: int
  rec_end :: int
  dataPointsCount :: nat

definition getRecommendedTimeRange ::
  "store \<Rightarrow> string \<Rightarrow> influx \<Rightarrow> recommendation option \<times> influx" where
  "getRecommendedTimeRange st imei w =
     (case executeQuery st (RecommendedRangeQuery imei) w of
        (Inl e, w') \<Rightarrow> (None, w')
      | (Inr result, w') \<Rightarrow>
          if length result = 0 then (None, w')
          else
            (let times = sort (map r_time result);
                 latestTime = times ! (length times - 1);
                 twelveHoursAgo = latestTime - 12 * 60 * 60 * 1000;
                 recentTimes = filter (\<lambda>t. t \<ge> twelveHoursAgo) times
             in if length recentTimes = 0 then
                  (let dayAgo = latestTime - 24 * 60 * 60 * 1000;
                       dayTimes = filter (\<lambda>t. t \<ge> dayAgo) times
                   in (Some \<lparr>rec_start =
                               (if length dayTimes > 0 then dayTimes ! 0
                                else times ! nat (max 0 (int (length times) - 1000))),
                             rec_end = latestTime,
                             dataPointsCount =
                               (if length dayTimes \<noteq> 0 then length dayTimes
                                else min 1000 (length times))\<rparr>,
                       w'))
                else
                  (Some \<lparr>rec_start = recentTimes ! 0, rec_end = latestTime,
                          dataPointsCount = length recentTimes\<rparr>,
                   w')))"

section \<open>The double arithmetic of the runtime\<close>

text \<open>
  IEEE 754 binary64 with rounding to nearest, ties to even. \<open>expo2 x\<close> is the binary
  exponent of a positive real: \<open>2 powi expo2 x \<le> x < 2 powi (expo2 x + 1)\<close>. A double has
  53 significant bits, and below \<open>2 powi (- 1022)\<close> the spacing of the subnormal doubles;
  \<open>rnd x\<close> is the double nearest to \<open>x\<close>. Results beyond the largest double (overflow to
  \<open>Infinity\<close>) are not modelled.
\<close>

definition expo2 :: "real \<Rightarrow> int" where
  "expo2 x = (if 1 \<le> x then bitlen \<lfloor>x\<rfloor> - 1 else - bitlen (\<lceil>1 / x\<rceil> - 1))"

definition roundEven :: "real \<Rightarrow> int" where
  "roundEven y =
     (let f = \<lfloor>y\<rfloor>; r = y - of_int f
      in if r < 1 / 2 then f else if 1 / 2 < r then f + 1 else if even f then f else f + 1)"

definition rnd :: "real \<Rightarrow> real" where
  "rnd x =
     (if x = 0 then 0
      else (let u = 2 powi (max (expo2 \<bar>x\<bar>) (- 1022) - 52)
            in of_int (roundEven (x / u)) * u))"

definition ieee :: arith where
  "ieee = \<lparr>fmul = (\<lambda>x y. rnd (x * y)), fdiv = (\<lambda>x y. rnd (x / y))\<rparr>"

section \<open>Vocabulary of the properties\<close>

text \<open>
  Rounding to two decimal places, a half rounded up: the nearest multiple of one
  hundredth.
\<close>

definition roundTo2 :: "real \<Rightarrow> real" where
  "roundTo2 x = of_int \<lfloor>x * 100 + 1 / 2\<rfloor> / 100"

text \<open>
  \<open>n\<close> hundredths is \<open>x\<close> rounded to two decimal places up to the rounding error of the
  double operations: \<open>n\<close> is within one half, and a relative error of \<open>2 ^ - 40\<close>, of
  \<open>100 * x\<close>.
\<close>

definition hundredthsNear :: "real \<Rightarrow> int \<Rightarrow> bool" where
  "hundredthsNear x n \<longleftrightarrow> \<bar>of_int n - x * 100\<bar> \<le> 1 / 2 + (\<bar>x\<bar> + 1) / 2 ^ 40"

text \<open>
  A row is a valid coordinate of the field \<open>name\<close> when it carries that field, its value
  parses to a number other than 0, and the number lies in \<open>[-90, 90]\<close> for a latitude
  and in \<open>[-180, 180]\<close> for a longitude.
\<close>

definition validCoordinate :: "(jsval \<Rightarrow> real option) \<Rightarrow> string \<Rightarrow> row \<Rightarrow> bool" where
  "validCoordinate parseFloat name r =
     (r_field r = JStr name \<and>
      (case parseFloat (r_value r) of
         None \<Rightarrow> False
       | Some v \<Rightarrow>
           v \<noteq> 0 \<and> (if name = ''latitude'' then - 90 \<le> v \<and> v \<le> 90
                      else - 180 \<le> v \<and> v \<le> 180)))"

text \<open>
  The coordinate of the field \<open>name\<close> at the timestamp \<open>t\<close>: the value of the last valid
  row of that field with that timestamp, if there is one.
\<close>

definition coordinateAt ::
  "(jsval \<Rightarrow> real option) \<Rightarrow> string \<Rightarrow> int \<Rightarrow> row list \<Rightarrow> real option" where
  "coordinateAt parseFloat name t rows =
     (case filter (\<lambda>r. r_time r = t \<and> validCoordinate parseFloat name r) rows of
        [] \<Rightarrow> None
      | r # rs \<Rightarrow> parseFloat (r_value (last (r # rs))))"

section \<open>Properties of the store client\<close>

lemma iterateRows_general:
  "length result \<le> 150000 \<Longrightarrow>
   iterateRows result rows =
     (result @ take (150001 - length result) rows, 150000 < length result + length rows)"
proof (induction rows arbitrary: result)
  case Nil
  then show ?case by simp
next
  case (Cons r rows)
  show ?case
  proof (cases "length result = 150000")
    case True
    then show ?thesis by (simp add: Let_def)
  next
    case False
    with Cons.prems have lt: "length (result @ [r]) \<le> 150000" by simp
    have "150001 - length result = Suc (150001 - length (result @ [r]))"
      using lt by simp
    then show ?thesis
      using Cons.IH [OF lt] lt by (simp add: Let_def)
  qed
qed

lemma iterateRows_below:
  "length result + length rows \<le> 150000 \<Longrightarrow> iterateRows result rows = (result @ rows, False)"
  by (simp add: iterateRows_general)

lemma attemptLoop_retry:
  assumes "retryCount < 3"
    and "st (iterations w) q = (rows, Some msg)"
    and "retried msg"
    and "length result + length rows \<le> 150000"
  shows "attemptLoop st q result retryCount w =
           attemptLoop st q (result @ rows) (Suc retryCount)
             (w\<lparr>iterations := Suc (iterations w), isConnected := False,
                trace := trace w @ [Iterate q, SetConnected False, Sleep (2000 * Suc retryCount)]\<rparr>)"
  using assms
  by (subst attemptLoop.simps) (auto simp: maxRetries_def iterateRows_below retried_def Let_def)

lemma attemptLoop_timeout_last:
  assumes "st (iterations w) q = (rows, Some msg)"
    and "str_includes msg ''timeout''"
    and "length result + length rows \<le> 150000"
  shows "attemptLoop st q result 3 w =
           (Inl QueryTimeout,
            w\<lparr>iterations := Suc (iterations w), isConnected := False,
              trace := trace w @ [Iterate q, SetConnected False]\<rparr>)"
  using assms
  by (subst attemptLoop.simps) (simp add: maxRetries_def iterateRows_below Let_def)

lemma attemptLoop_success:
  assumes "retryCount \<le> 3"
    and "st (iterations w) q = (rows, None)"
    and "length result + length rows \<le> 150000"
  shows "fst (attemptLoop st q result retryCount w) = Inr (result @ rows)"
  using assms
  by (subst attemptLoop.simps) (simp add: maxRetries_def iterateRows_below Let_def)

lemma attemptLoop_keeps_rows:
  assumes "retryCount + n \<le> 3"
    and "\<forall>i<n. \<exists>msg. snd (st (iterations w + i) q) = Some msg \<and> retried msg"
    and "snd (st (iterations w + n) q) = None"
    and "length result + length (concat (map (\<lambda>i. fst (st (iterations w + i) q)) [0..<Suc n]))
           \<le> 150000"
  shows "fst (attemptLoop st q result retryCount w) =
           Inr (result @ concat (map (\<lambda>i. fst (st (iterations w + i) q)) [0..<Suc n]))"
  using assms
proof (induction n arbitrary: result retryCount w)
  case 0
  obtain rows where r: "st (iterations w) q = (rows, None)"
    using "0.prems"(3) by (cases "st (iterations w) q") simp
  show ?case
    using "0.prems" r attemptLoop_success [of retryCount st w q rows result] by simp
next
  case (Suc n)
  let ?f = "\<lambda>i. fst (st (iterations w + i) q)"
  obtain rows msg where r: "st (iterations w) q = (rows, Some msg)" and m: "retried msg"
    using Suc.prems(2) by (cases "st (iterations w) q") force
  have split: "concat (map ?f [0..<Suc (Suc n)]) =
                 rows @ concat (map (\<lambda>i. ?f (Suc i)) [0..<Suc n])"
    using r by (simp only: map_upt_Suc [of ?f "Suc n"]) simp
  let ?w = "w\<lparr>iterations := Suc (iterations w), isConnected := False,
               trace := trace w @ [Iterate q, SetConnected False, Sleep (2000 * Suc retryCount)]\<rparr>"
  have len: "length result + length rows \<le> 150000"
    using Suc.prems(4) unfolding split by simp
  have step: "attemptLoop st q result retryCount w =
                attemptLoop st q (result @ rows) (Suc retryCount) ?w"
    using Suc.prems(1) r m len by (intro attemptLoop_retry) simp_all
  have "fst (attemptLoop st q (result @ rows) (Suc retryCount) ?w) =
          Inr ((result @ rows) @ concat (map (\<lambda>i. fst (st (iterations ?w + i) q)) [0..<Suc n]))"
  proof (rule Suc.IH)
    show "Suc retryCount + n \<le> 3" using Suc.prems(1) by simp
    show "\<forall>i<n. \<exists>msg. snd (st (iterations ?w + i) q) = Some msg \<and> retried msg"
      using Suc.prems(2) by auto
    show "snd (st (iterations ?w + n) q) = None"
      using Suc.prems(3) by simp
    show "length (result @ rows) +
            length (concat (map (\<lambda>i. fst (st (iterations ?w + i) q)) [0..<Suc n])) \<le> 150000"
      using Suc.prems(4) unfolding split by simp
  qed
  then show ?case
    unfolding step split by simp
qed


lemma attemptLoop_invariant:
  "attemptLoop st q result retryCount w = (res, w') \<Longrightarrow> length result \<le> 150000 \<Longrightarrow>
   \<exists>evs. trace w' = trace w @ evs \<and>
     (case res of
        Inr rows \<Rightarrow> length rows \<le> 150001 \<and> (WarnTruncated \<in> set evs \<longleftrightarrow> length rows = 150001)
      | Inl e \<Rightarrow> WarnTruncated \<notin> set evs)"
proof (induction st q result retryCount w rule: attemptLoop.induct)
  case (1 st q result retryCount w)
  obtain rows failure where r: "st (iterations w) q = (rows, failure)"
    by (cases "st (iterations w) q")
  have it: "iterateRows result rows =
              (result @ take (150001 - length result) rows, 150000 < length result + length rows)"
    using "1.prems"(2) by (rule iterateRows_general)
  show ?case
  proof (cases "retryCount \<le> maxRetries")
    case False
    with "1.prems"(1) show ?thesis
      by (subst (asm) attemptLoop.simps) auto
  next
    case rc: True
    show ?thesis
    proof (cases "150000 < length result + length rows")
      case True
      with "1.prems" rc r it show ?thesis
        by (subst (asm) attemptLoop.simps) (auto simp: Let_def min_def)
    next
      case notrunc: False
      then have app: "result @ take (150001 - length result) rows = result @ rows"
        and len: "length (result @ rows) \<le> 150000"
        by simp_all
      show ?thesis
      proof (cases failure)
        case None
        with "1.prems" rc r it notrunc show ?thesis
          by (subst (asm) attemptLoop.simps) (auto simp: Let_def)
      next
        case (Some msg)
        let ?w2 = "w\<lparr>iterations := Suc (iterations w), trace := trace w @ [Iterate q]\<rparr>"
        let ?w3 = "?w2\<lparr>isConnected := False, trace := trace ?w2 @ [SetConnected False]\<rparr>"
        let ?w4 = "?w3\<lparr>trace := trace ?w3 @ [Sleep (2000 * Suc retryCount)]\<rparr>"
        let ?again = "(str_includes msg ''timeout'' \<or>
                      (\<not> (str_includes msg ''unauthorized'' \<or> str_includes msg ''401'')
                       \<and> \<not> (str_includes msg ''not found'' \<or> str_includes msg ''404'')
                       \<and> (str_includes msg ''connection'' \<or> str_includes msg ''ENOTFOUND''
                            \<or> str_includes msg ''ECONNREFUSED'')))
                     \<and> retryCount < maxRetries"
        show ?thesis
        proof (cases ?again)
          case False
          with "1.prems" rc r it notrunc Some show ?thesis
            by (subst (asm) attemptLoop.simps) (auto simp: Let_def split: if_splits)
        next
          case True
          then have rec: "attemptLoop st q result retryCount w =
                            attemptLoop st q (result @ rows) (Suc retryCount) ?w4"
            using rc r it notrunc Some app
            by (subst attemptLoop.simps) (auto simp: Let_def)
          have call: "attemptLoop st q (result @ rows) (Suc retryCount) ?w4 = (res, w')"
            using "1.prems"(1) rec by simp
          have "\<exists>evs. trace w' = trace ?w4 @ evs \<and>
                  (case res of
                     Inr rows \<Rightarrow> length rows \<le> 150001
                       \<and> (WarnTruncated \<in> set evs \<longleftrightarrow> length rows = 150001)
                   | Inl e \<Rightarrow> WarnTruncated \<notin> set evs)"
          proof (cases "str_includes msg ''timeout''")
            case t: True
            show ?thesis
              by (rule "1.IH"(1) [OF rc r [symmetric] refl _ refl _ _ _ refl t _ call len])
                 (use it notrunc Some app True in \<open>auto\<close>)
          next
            case t: False
            show ?thesis
              by (rule "1.IH"(2) [OF rc r [symmetric] refl _ refl _ _ _ refl t _ _ _ _ call len])
                 (use it notrunc Some app True t in \<open>auto\<close>)
          qed
          then obtain evs where e: "trace w' = trace ?w4 @ evs"
            and c: "case res of
                     Inr rows \<Rightarrow> length rows \<le> 150001
                       \<and> (WarnTruncated \<in> set evs \<longleftrightarrow> length rows = 150001)
                   | Inl e \<Rightarrow> WarnTruncated \<notin> set evs"
            by blast
          show ?thesis
          proof (intro exI conjI)
            show "trace w' = trace w @ ([Iterate q, SetConnected False,
                                          Sleep (2000 * Suc retryCount)] @ evs)"
              using e by simp
            show "case res of
                     Inr rows \<Rightarrow> length rows \<le> 150001 \<and>
                       (WarnTruncated \<in> set ([Iterate q, SetConnected False,
                           Sleep (2000 * Suc retryCount)] @ evs) \<longleftrightarrow> length rows = 150001)
                   | Inl e \<Rightarrow> WarnTruncated \<notin> set ([Iterate q, SetConnected False,
                           Sleep (2000 * Suc retryCount)] @ evs)"
              using c by (cases res) auto
          qed
        qed
      qed
    qed
  qed
qed



lemma executeQuery_first_success:
  assumes "queryApi w"
    and "st (iterations w) q = (rows, None)"
    and "length rows \<le> 150000"
  shows "executeQuery st q w =
           (Inr rows,
            if isConnected w
            then w\<lparr>iterations := Suc (iterations w), trace := trace w @ [Iterate q]\<rparr>
            else w\<lparr>iterations := Suc (iterations w), isConnected := True,
                   trace := trace w @ [Iterate q, SetConnected True]\<rparr>)"
proof -
  have "attemptLoop st q [] 0 w =
          (Inr rows,
           if isConnected w
           then w\<lparr>iterations := Suc (iterations w), trace := trace w @ [Iterate q]\<rparr>
           else w\<lparr>iterations := Suc (iterations w), isConnected := True,
                  trace := trace w @ [Iterate q, SetConnected True]\<rparr>)"
    using assms(2,3) by (subst attemptLoop.simps) (simp add: iterateRows_below Let_def)
  then show ?thesis
    using assms(1) by (simp add: executeQuery_def)
qed

text \<open>
  Claim C2. When each of the four attempts of one call fails with a message that contains
  \<open>timeout\<close> (and the rows streamed before the failures stay within the buffer limit, so
  that every attempt does reach its failure), \<open>executeQuery\<close> retries exactly three
  times, waits 2000, 4000 and 6000 milliseconds before the retries, assigns \<open>false\<close> to
  \<open>isConnected\<close> after every one of the four failed attempts, and ends with the fixed
  error \<open>QueryTimeout\<close>, which carries none of the messages \<open>m0\<close>, ..., \<open>m3\<close>.
\<close>

theorem executeQuery_timeout_retries:
  assumes api: "queryApi w"
    and t0: "snd (st (iterations w) q) = Some m0" "str_includes m0 ''timeout''"
    and t1: "snd (st (iterations w + 1) q) = Some m1" "str_includes m1 ''timeout''"
    and t2: "snd (st (iterations w + 2) q) = Some m2" "str_includes m2 ''timeout''"
    and t3: "snd (st (iterations w + 3) q) = Some m3" "str_includes m3 ''timeout''"
    and len: "length (fst (st (iterations w) q)) + length (fst (st (iterations w + 1) q))
              + length (fst (st (iterations w + 2) q)) + length (fst (st (iterations w + 3) q))
              \<le> 150000"
  shows "executeQuery st q w =
           (Inl QueryTimeout,
            w\<lparr>iterations := iterations w + 4, isConnected := False,
              trace := trace w @
                [Iterate q, SetConnected False, Sleep 2000,
                 Iterate q, SetConnected False, Sleep 4000,
                 Iterate q, SetConnected False, Sleep 6000,
                 Iterate q, SetConnected False]\<rparr>)"
proof -
  obtain r0 where s0: "st (iterations w) q = (r0, Some m0)"
    using t0(1) by (cases "st (iterations w) q") simp
  obtain r1 where s1: "st (Suc (iterations w)) q = (r1, Some m1)"
    using t1(1) by (cases "st (Suc (iterations w)) q") simp
  obtain r2 where s2: "st (Suc (Suc (iterations w))) q = (r2, Some m2)"
    using t2(1) by (cases "st (Suc (Suc (iterations w))) q") (simp add: numeral_2_eq_2)
  obtain r3 where s3: "st (Suc (Suc (Suc (iterations w)))) q = (r3, Some m3)"
    using t3(1) by (cases "st (Suc (Suc (Suc (iterations w)))) q") (simp add: numeral_3_eq_3)
  have l: "length r0 + length r1 + length r2 + length r3 \<le> 150000"
    using len s0 s1 s2 s3 by (simp add: numeral_2_eq_2 numeral_3_eq_3)
  have r: "retried m0" "retried m1" "retried m2"
    using t0(2) t1(2) t2(2) by (simp_all add: retried_def)
  let ?w1 = "w\<lparr>iterations := Suc (iterations w), isConnected := False,
               trace := trace w @ [Iterate q, SetConnected False, Sleep (2000 * Suc 0)]\<rparr>"
  let ?w2 = "?w1\<lparr>iterations := Suc (iterations ?w1), isConnected := False,
               trace := trace ?w1 @ [Iterate q, SetConnected False, Sleep (2000 * Suc (Suc 0))]\<rparr>"
  let ?w3 = "?w2\<lparr>iterations := Suc (iterations ?w2), isConnected := False,
               trace := trace ?w2 @ [Iterate q, SetConnected False, Sleep (2000 * Suc (Suc (Suc 0)))]\<rparr>"
  have a0: "attemptLoop st q [] 0 w = attemptLoop st q ([] @ r0) (Suc 0) ?w1"
    using s0 r(1) l by (intro attemptLoop_retry) simp_all
  have a1: "attemptLoop st q ([] @ r0) (Suc 0) ?w1 = attemptLoop st q (([] @ r0) @ r1) (Suc (Suc 0)) ?w2"
    using s1 r(2) l by (intro attemptLoop_retry) simp_all
  have a2: "attemptLoop st q (([] @ r0) @ r1) (Suc (Suc 0)) ?w2 =
              attemptLoop st q ((([] @ r0) @ r1) @ r2) (Suc (Suc (Suc 0))) ?w3"
    using s2 r(3) l by (intro attemptLoop_retry) simp_all
  have a3: "attemptLoop st q ((([] @ r0) @ r1) @ r2) 3 ?w3 =
              (Inl QueryTimeout,
               ?w3\<lparr>iterations := Suc (iterations ?w3), isConnected := False,
                  trace := trace ?w3 @ [Iterate q, SetConnected False]\<rparr>)"
  proof (rule attemptLoop_timeout_last [OF _ t3(2)])
    show "st (iterations ?w3) q = (r3, Some m3)" using s3 by simp
    show "length ((([] @ r0) @ r1) @ r2) + length r3 \<le> 150000" using l by simp
  qed
  have "attemptLoop st q [] 0 w =
          (Inl QueryTimeout,
           ?w3\<lparr>iterations := Suc (iterations ?w3), isConnected := False,
              trace := trace ?w3 @ [Iterate q, SetConnected False]\<rparr>)"
    using a0 a1 a2 a3 by (simp add: numeral_3_eq_3)
  then show ?thesis
    using api by (simp add: executeQuery_def)
qed

theorem executeQuery_timeout_retries_witness:
  "executeQuery (\<lambda>n q. ([], Some ''request timeout'')) ImeisQuery
     \<lparr>queryApi = True, isConnected = True, iterations = 0, trace = []\<rparr> =
   (Inl QueryTimeout,
    \<lparr>queryApi = True, isConnected = False, iterations = 4,
      trace = [Iterate ImeisQuery, SetConnected False, Sleep 2000,
               Iterate ImeisQuery, SetConnected False, Sleep 4000,
               Iterate ImeisQuery, SetConnected False, Sleep 6000,
               Iterate ImeisQuery, SetConnected False]\<rparr>)"
  using executeQuery_timeout_retries
    [of "\<lparr>queryApi = True, isConnected = True, iterations = 0, trace = []\<rparr>"
        "\<lambda>n q. ([], Some ''request timeout'')" ImeisQuery
        "''request timeout''" "''request timeout''" "''request timeout''" "''request timeout''"]
  by simp

text \<open>
  Claim C10. The buffer is created once per call and is never cleared: when the first
  \<open>n\<close> attempts fail with a retried message after streaming some rows and attempt \<open>n\<close>
  succeeds, the call returns the rows of the failed attempts, in order, followed by the
  rows of the successful attempt.
\<close>

theorem executeQuery_keeps_rows_of_failed_attempts:
  assumes "queryApi w"
    and "n \<le> 3"
    and "\<forall>i<n. \<exists>msg. snd (st (iterations w + i) q) = Some msg \<and> retried msg"
    and "snd (st (iterations w + n) q) = None"
    and "length (concat (map (\<lambda>i. fst (st (iterations w + i) q)) [0..<Suc n])) \<le> 150000"
  shows "fst (executeQuery st q w) =
           Inr (concat (map (\<lambda>i. fst (st (iterations w + i) q)) [0..<n])
                @ fst (st (iterations w + n) q))"
  using assms attemptLoop_keeps_rows [of 0 n st w q "[]"]
  by (simp add: executeQuery_def)

theorem executeQuery_keeps_rows_of_failed_attempts_witness:
  "fst (executeQuery
          (\<lambda>n q. if n = 0
                  then ([\<lparr>r_imei = JStr ''356938035643809'', r_field = JUndefined,
                           r_value = JUndefined, r_time = 1000\<rparr>], Some ''request timeout'')
                  else ([\<lparr>r_imei = JStr ''356938035643810'', r_field = JUndefined,
                           r_value = JUndefined, r_time = 2000\<rparr>], None))
          ImeisQuery
          \<lparr>queryApi = True, isConnected = True, iterations = 0, trace = []\<rparr>)
   = Inr [\<lparr>r_imei = JStr ''356938035643809'', r_field = JUndefined,
             r_value = JUndefined, r_time = 1000\<rparr>,
          \<lparr>r_imei = JStr ''356938035643810'', r_field = JUndefined,
             r_value = JUndefined, r_time = 2000\<rparr>]"
  using executeQuery_keeps_rows_of_failed_attempts
    [of "\<lparr>queryApi = True, isConnected = True, iterations = 0, trace = []\<rparr>" 1
        "\<lambda>n q. if n = 0
                then ([\<lparr>r_imei = JStr ''356938035643809'', r_field = JUndefined,
                         r_value = JUndefined, r_time = 1000\<rparr>], Some ''request timeout'')
                else ([\<lparr>r_imei = JStr ''356938035643810'', r_field = JUndefined,
                         r_value = JUndefined, r_time = 2000\<rparr>], None)"
        ImeisQuery]
  by (simp add: retried_def)

lemma attemptLoop_truncated_step:
  assumes "retryCount \<le> 3"
    and "length result \<le> 150000"
    and "st (iterations w) q = (rows, failure)"
    and "150000 < length result + length rows"
  shows "fst (attemptLoop st q result retryCount w) = Inr (take 150001 (result @ rows))"
proof -
  have "iterateRows result rows = (result @ take (150001 - length result) rows, True)"
    using assms(2,4) by (simp add: iterateRows_general)
  then show ?thesis
    using assms(1,2,3) by (subst attemptLoop.simps) (simp add: maxRetries_def Let_def)
qed

lemma attemptLoop_truncates:
  assumes "retryCount + n \<le> 3"
    and "\<forall>i<n. \<exists>msg. snd (st (iterations w + i) q) = Some msg \<and> retried msg"
    and "length result + length (concat (map (\<lambda>i. fst (st (iterations w + i) q)) [0..<n]))
           \<le> 150000"
    and "150000 < length result
           + length (concat (map (\<lambda>i. fst (st (iterations w + i) q)) [0..<Suc n]))"
  shows "fst (attemptLoop st q result retryCount w) =
           Inr (take 150001
                  (result @ concat (map (\<lambda>i. fst (st (iterations w + i) q)) [0..<Suc n])))"
  using assms
proof (induction n arbitrary: result retryCount w)
  case 0
  obtain rows failure where r: "st (iterations w) q = (rows, failure)"
    by (cases "st (iterations w) q")
  show ?case
    using "0.prems" r attemptLoop_truncated_step [of retryCount result st w q rows failure]
    by simp
next
  case (Suc n)
  let ?f = "\<lambda>i. fst (st (iterations w + i) q)"
  obtain rows msg where r: "st (iterations w) q = (rows, Some msg)" and m: "retried msg"
    using Suc.prems(2) by (cases "st (iterations w) q") force
  have split: "concat (map ?f [0..<Suc (Suc n)]) =
                 rows @ concat (map (\<lambda>i. ?f (Suc i)) [0..<Suc n])"
    using r by (simp only: map_upt_Suc [of ?f "Suc n"]) simp
  have split': "concat (map ?f [0..<Suc n]) = rows @ concat (map (\<lambda>i. ?f (Suc i)) [0..<n])"
    using r by (simp only: map_upt_Suc [of ?f n]) simp
  let ?w = "w\<lparr>iterations := Suc (iterations w), isConnected := False,
               trace := trace w @ [Iterate q, SetConnected False, Sleep (2000 * Suc retryCount)]\<rparr>"
  have len: "length result + length rows \<le> 150000"
    using Suc.prems(3) unfolding split' by simp
  have step: "attemptLoop st q result retryCount w =
                attemptLoop st q (result @ rows) (Suc retryCount) ?w"
    using Suc.prems(1) r m len by (intro attemptLoop_retry) simp_all
  have "fst (attemptLoop st q (result @ rows) (Suc retryCount) ?w) =
          Inr (take 150001
                 ((result @ rows) @ concat (map (\<lambda>i. fst (st (iterations ?w + i) q)) [0..<Suc n])))"
  proof (rule Suc.IH)
    show "Suc retryCount + n \<le> 3" using Suc.prems(1) by simp
    show "\<forall>i<n. \<exists>msg. snd (st (iterations ?w + i) q) = Some msg \<and> retried msg"
      using Suc.prems(2) by auto
    show "length (result @ rows) +
            length (concat (map (\<lambda>i. fst (st (iterations ?w + i) q)) [0..<n])) \<le> 150000"
      using Suc.prems(3) unfolding split' by simp
    show "150000 < length (result @ rows) +
            length (concat (map (\<lambda>i. fst (st (iterations ?w + i) q)) [0..<Suc n]))"
      using Suc.prems(4) unfolding split by simp
  qed
  then show ?case
    unfolding step split by simp
qed

text \<open>
  Claim C6, as amended. The loop breaks as soon as the buffer holds more than 150000
  rows. When the rows streamed by the attempts of one call (the retried attempts before
  the last one, then the last one) go beyond 150000, the call does not fail: it emits the
  truncation warning and returns the first 150001 of these rows. And for every call: a
  successful call returns at most 150001 rows, the warning is emitted exactly when it
  returns 150001 rows, and a failed call emits no warning.
\<close>

theorem executeQuery_truncation:
  "(queryApi w \<and> n \<le> 3
      \<and> (\<forall>i<n. \<exists>msg. snd (st (iterations w + i) q) = Some msg \<and> retried msg)
      \<and> length (concat (map (\<lambda>i. fst (st (iterations w + i) q)) [0..<n])) \<le> 150000
      \<and> 150000 < length (concat (map (\<lambda>i. fst (st (iterations w + i) q)) [0..<Suc n]))
    \<longrightarrow> (\<exists>w' evs.
           executeQuery st q w =
             (Inr (take 150001 (concat (map (\<lambda>i. fst (st (iterations w + i) q)) [0..<Suc n]))),
              w')
           \<and> trace w' = trace w @ evs \<and> WarnTruncated \<in> set evs))
   \<and> (\<forall>res w'. executeQuery st q w = (res, w') \<longrightarrow>
         (\<exists>evs. trace w' = trace w @ evs \<and>
            (case res of
               Inr rows \<Rightarrow>
                 length rows \<le> 150001 \<and> (WarnTruncated \<in> set evs \<longleftrightarrow> length rows = 150001)
             | Inl e \<Rightarrow> WarnTruncated \<notin> set evs)))"
proof (intro conjI impI allI)
  fix res w'
  assume e: "executeQuery st q w = (res, w')"
  show "\<exists>evs. trace w' = trace w @ evs \<and>
           (case res of
              Inr rows \<Rightarrow>
                length rows \<le> 150001 \<and> (WarnTruncated \<in> set evs \<longleftrightarrow> length rows = 150001)
            | Inl e \<Rightarrow> WarnTruncated \<notin> set evs)"
  proof (cases "queryApi w")
    case False
    with e have "res = Inl NotInitialized" and "w' = w"
      by (simp_all add: executeQuery_def)
    then show ?thesis by simp
  next
    case True
    with e have "attemptLoop st q [] 0 w = (res, w')"
      by (simp add: executeQuery_def)
    then show ?thesis
      by (rule attemptLoop_invariant) simp
  qed
next
  let ?all = "concat (map (\<lambda>i. fst (st (iterations w + i) q)) [0..<Suc n])"
  assume h: "queryApi w \<and> n \<le> 3
      \<and> (\<forall>i<n. \<exists>msg. snd (st (iterations w + i) q) = Some msg \<and> retried msg)
      \<and> length (concat (map (\<lambda>i. fst (st (iterations w + i) q)) [0..<n])) \<le> 150000
      \<and> 150000 < length ?all"
  obtain res w' where a: "attemptLoop st q [] 0 w = (res, w')"
    by (cases "attemptLoop st q [] 0 w")
  have "fst (attemptLoop st q [] 0 w) = Inr (take 150001 ([] @ ?all))"
    by (rule attemptLoop_truncates) (use h in simp_all)
  then have res: "res = Inr (take 150001 ?all)"
    using a by simp
  have "150001 \<le> length ?all"
    using h by linarith
  then have len: "length (take 150001 ?all) = 150001"
    by (simp only: length_take min_absorb2)
  obtain evs where t: "trace w' = trace w @ evs"
    and c: "case res of
              Inr rows \<Rightarrow>
                length rows \<le> 150001 \<and> (WarnTruncated \<in> set evs \<longleftrightarrow> length rows = 150001)
            | Inl e \<Rightarrow> WarnTruncated \<notin> set evs"
    using attemptLoop_invariant [OF a] by auto
  have "WarnTruncated \<in> set evs"
    using c len unfolding res by simp
  moreover have "executeQuery st q w = (Inr (take 150001 ?all), w')"
    using h a res by (simp add: executeQuery_def)
  ultimately show "\<exists>w' evs. executeQuery st q w = (Inr (take 150001 ?all), w')
           \<and> trace w' = trace w @ evs \<and> WarnTruncated \<in> set evs"
    using t by blast
qed

theorem executeQuery_truncation_witness:
  "fst (executeQuery
          (\<lambda>n q. if n = 0
                  then (replicate 100000
                          \<lparr>r_imei = JStr ''356938035643809'', r_field = JUndefined,
                            r_value = JUndefined, r_time = 1000\<rparr>, Some ''request timeout'')
                  else (replicate 100000
                          \<lparr>r_imei = JStr ''356938035643810'', r_field = JUndefined,
                            r_value = JUndefined, r_time = 2000\<rparr>, None))
          ImeisQuery
          \<lparr>queryApi = True, isConnected = True, iterations = 0, trace = []\<rparr>)
     = Inr (replicate 100000
              \<lparr>r_imei = JStr ''356938035643809'', r_field = JUndefined,
                r_value = JUndefined, r_time = 1000\<rparr>
            @ replicate 50001
                \<lparr>r_imei = JStr ''356938035643810'', r_field = JUndefined,
                  r_value = JUndefined, r_time = 2000\<rparr>)
   \<and> WarnTruncated \<in> set (trace (snd (executeQuery
          (\<lambda>n q. if n = 0
                  then (replicate 100000
                          \<lparr>r_imei = JStr ''356938035643809'', r_field = JUndefined,
                            r_value = JUndefined, r_time = 1000\<rparr>, Some ''request timeout'')
                  else (replicate 100000
                          \<lparr>r_imei = JStr ''356938035643810'', r_field = JUndefined,
                            r_value = JUndefined, r_time = 2000\<rparr>, None))
          ImeisQuery
          \<lparr>queryApi = True, isConnected = True, iterations = 0, trace = []\<rparr>)))"
  using executeQuery_truncation
    [of "\<lparr>queryApi = True, isConnected = True, iterations = 0, trace = []\<rparr>" "Suc 0"
        "\<lambda>n q. if n = 0
                then (replicate 100000
                        \<lparr>r_imei = JStr ''356938035643809'', r_field = JUndefined,
                          r_value = JUndefined, r_time = 1000\<rparr>, Some ''request timeout'')
                else (replicate 100000
                        \<lparr>r_imei = JStr ''356938035643810'', r_field = JUndefined,
                          r_value = JUndefined, r_time = 2000\<rparr>, None)"
        ImeisQuery]
  by (auto simp: retried_def)

lemma executeQuery_first_truncated:
  assumes "queryApi w"
    and "isConnected w"
    and "st (iterations w) q = (rows, failure)"
    and "150000 < length rows"
  shows "executeQuery st q w =
           (Inr (take 150001 rows),
            w\<lparr>iterations := Suc (iterations w),
              trace := trace w @ [Iterate q, WarnTruncated]\<rparr>)"
proof -
  have "iterateRows [] rows = (take 150001 rows, True)"
    using assms(4) by (simp add: iterateRows_general)
  then have "attemptLoop st q [] 0 w =
          (Inr (take 150001 rows),
           w\<lparr>iterations := Suc (iterations w), trace := trace w @ [Iterate q, WarnTruncated]\<rparr>)"
    using assms(2,3) by (subst attemptLoop.simps) (simp add: Let_def)
  then show ?thesis
    using assms(1) by (simp add: executeQuery_def)
qed

text \<open>
  Claim C6 as stated fails: a stream of 150001 rows is materialised whole, so the buffer
  goes beyond 150000 rows; and a stream of exactly 150000 rows is collected without any
  warning.
\<close>

theorem executeQuery_cap_counterexample:
  "fst (executeQuery
          (\<lambda>n q. (replicate 150001
                     \<lparr>r_imei = JStr ''356938035643809'', r_field = JUndefined,
                       r_value = JUndefined, r_time = 0\<rparr>, None))
          ImeisQuery
          \<lparr>queryApi = True, isConnected = True, iterations = 0, trace = []\<rparr>)
     = Inr (replicate 150001
              \<lparr>r_imei = JStr ''356938035643809'', r_field = JUndefined,
                r_value = JUndefined, r_time = 0\<rparr>)
   \<and> \<not> length (replicate 150001
                  \<lparr>r_imei = JStr ''356938035643809'', r_field = JUndefined,
                    r_value = JUndefined, r_time = 0\<rparr>) \<le> 150000
   \<and> trace (snd (executeQuery
          (\<lambda>n q. (replicate 150000
                     \<lparr>r_imei = JStr ''356938035643809'', r_field = JUndefined,
                       r_value = JUndefined, r_time = 0\<rparr>, None))
          ImeisQuery
          \<lparr>queryApi = True, isConnected = True, iterations = 0, trace = []\<rparr>))
     = [Iterate ImeisQuery]"
proof -
  let ?row = "\<lparr>r_imei = JStr ''356938035643809'', r_field = JUndefined,
                r_value = JUndefined, r_time = 0\<rparr>"
  let ?w = "\<lparr>queryApi = True, isConnected = True, iterations = 0, trace = []\<rparr>"
  have "executeQuery (\<lambda>n q. (replicate 150001 ?row, None)) ImeisQuery ?w =
          (Inr (take 150001 (replicate 150001 ?row)),
           ?w\<lparr>iterations := Suc (iterations ?w),
                trace := trace ?w @ [Iterate ImeisQuery, WarnTruncated]\<rparr>)"
    by (rule executeQuery_first_truncated) simp_all
  moreover have "executeQuery (\<lambda>n q. (replicate 150000 ?row, None)) ImeisQuery ?w =
          (Inr (replicate 150000 ?row),
           if isConnected ?w
           then ?w\<lparr>iterations := Suc (iterations ?w), trace := trace ?w @ [Iterate ImeisQuery]\<rparr>
           else ?w\<lparr>iterations := Suc (iterations ?w), isConnected := True,
                    trace := trace ?w @ [Iterate ImeisQuery, SetConnected True]\<rparr>)"
    by (rule executeQuery_first_success) simp_all
  ultimately show ?thesis by simp
qed

section \<open>Properties of the telemetry service\<close>

lemma sort_nth_0_Min:
  fixes xs :: "'a::linorder list"
  assumes "xs \<noteq> []"
  shows "sort xs ! 0 = Min (set xs)"
proof -
  have "sort xs \<noteq> []"
    using assms by (metis length_sort length_0_conv)
  then obtain y ys where s: "sort xs = y # ys"
    by (cases "sort xs") auto
  have "sorted (y # ys)" and set: "set (y # ys) = set xs"
    using s [symmetric] by simp_all
  then have "\<forall>z\<in>set xs. y \<le> z" and "y \<in> set xs"
    by auto
  then have "Min (set xs) = y"
    by (intro Min_eqI) auto
  then show ?thesis using s by simp
qed

lemma sort_nth_last_Max:
  fixes xs :: "'a::linorder list"
  assumes "xs \<noteq> []"
  shows "sort xs ! (length (sort xs) - 1) = Max (set xs)"
proof -
  have ne: "sort xs \<noteq> []" using assms by (metis length_sort length_0_conv)
  then have l: "sort xs ! (length (sort xs) - 1) = last (sort xs)"
    by (simp add: last_conv_nth)
  have "sorted (butlast (sort xs) @ [last (sort xs)])"
    using ne by simp
  then have "\<forall>z\<in>set (butlast (sort xs)). z \<le> last (sort xs)"
    by (simp add: sorted_append)
  moreover have "set (sort xs) = insert (last (sort xs)) (set (butlast (sort xs)))"
    using ne by (metis append_butlast_last_id list.simps(15) rotate1.simps(2) set_rotate1)
  ultimately have "\<forall>z\<in>set xs. z \<le> last (sort xs)" and "last (sort xs) \<in> set xs"
    by auto
  then have "Max (set xs) = last (sort xs)"
    by (intro Max_eqI) auto
  then show ?thesis using l by simp
qed

text \<open>
  Claim C1. With \<open>h\<close> the elapsed hours between the start \<open>s\<close> and the end \<open>e\<close>, that is
  their difference in milliseconds divided by 3600000: \<open>h > 168\<close> selects the 1 hour mean,
  \<open>24 < h \<le> 168\<close> the 15 minute mean, \<open>6 < h \<le> 24\<close> the 3 minute mean, \<open>h \<le> 6\<close> no
  aggregation; the result is marked aggregated exactly when \<open>h > 6\<close>; and two requests
  with the same elapsed hours get the same result. The function takes no state and
  returns none.
\<close>

theorem calculateAggregationWindow_table:
  "(real_of_int (e - s) / 3600000 > 168 \<longrightarrow>
      calculateAggregationWindow s e =
        \<lparr>window = ''|> aggregateWindow(every: 1h, fn: mean, createEmpty: false)'',
         isAggregated = True\<rparr>)
   \<and> (24 < real_of_int (e - s) / 3600000 \<and> real_of_int (e - s) / 3600000 \<le> 168 \<longrightarrow>
      calculateAggregationWindow s e =
        \<lparr>window = ''|> aggregateWindow(every: 15m, fn: mean, createEmpty: false)'',
         isAggregated = True\<rparr>)
   \<and> (6 < real_of_int (e - s) / 3600000 \<and> real_of_int (e - s) / 3600000 \<le> 24 \<longrightarrow>
      calculateAggregationWindow s e =
        \<lparr>window = ''|> aggregateWindow(every: 3m, fn: mean, createEmpty: false)'',
         isAggregated = True\<rparr>)
   \<and> (real_of_int (e - s) / 3600000 \<le> 6 \<longrightarrow>
      calculateAggregationWindow s e = \<lparr>window = [], isAggregated = False\<rparr>)
   \<and> (isAggregated (calculateAggregationWindow s e) \<longleftrightarrow> real_of_int (e - s) / 3600000 > 6)
   \<and> (\<forall>s' e'. real_of_int (e' - s') / 3600000 = real_of_int (e - s) / 3600000 \<longrightarrow>
         calculateAggregationWindow s' e' = calculateAggregationWindow s e)"
  by (simp add: calculateAggregationWindow_def hoursBetween_def Let_def)

theorem calculateAggregationWindow_table_witness:
  "calculateAggregationWindow 1704067200000 1704070800000 = \<lparr>window = [], isAggregated = False\<rparr>
   \<and> calculateAggregationWindow 1704067200000 1704092400000 =
        \<lparr>window = ''|> aggregateWindow(every: 3m, fn: mean, createEmpty: false)'',
         isAggregated = True\<rparr>
   \<and> calculateAggregationWindow 1704067200000 1704240000000 =
        \<lparr>window = ''|> aggregateWindow(every: 15m, fn: mean, createEmpty: false)'',
         isAggregated = True\<rparr>
   \<and> calculateAggregationWindow 1704067200000 1704787200000 =
        \<lparr>window = ''|> aggregateWindow(every: 1h, fn: mean, createEmpty: false)'',
         isAggregated = True\<rparr>"
  using calculateAggregationWindow_table
          [of 1704070800000 1704067200000,
           THEN conjunct2, THEN conjunct2, THEN conjunct2, THEN conjunct1]
    calculateAggregationWindow_table
          [of 1704092400000 1704067200000, THEN conjunct2, THEN conjunct2, THEN conjunct1]
    calculateAggregationWindow_table
          [of 1704240000000 1704067200000, THEN conjunct2, THEN conjunct1]
    calculateAggregationWindow_table [of 1704787200000 1704067200000, THEN conjunct1]
  by simp

text \<open>
  Claim C4. When both dates parse and the start is not before the end, or the span is
  longer than 60 days, \<open>getTelemetryData\<close> fails with a \<open>BadRequest\<close> and leaves the
  state of the store client as it was: no call to the store was made, so no probe,
  discovery or main query ran.
\<close>

theorem getTelemetryData_rejects_invalid_range:
  assumes "parseDate start = Some startDate"
    and "parseDate stop = Some endDate"
    and "startDate \<ge> endDate \<or> endDate - startDate > 60 * (24 * 60 * 60 * 1000)"
  shows "\<exists>msg. getTelemetryData ar parseDate parseFloat st imei start stop w
                 = (Inl (BadRequest msg), w)"
  using assms by (auto simp: getTelemetryData_def)

theorem getTelemetryData_rejects_invalid_range_witness:
  "\<exists>msg. getTelemetryData ieee
            (\<lambda>s. if s = ''2024-01-01T00:00:00Z'' then Some 1704067200000
                  else if s = ''2024-06-01T00:00:00Z'' then Some 1717200000000 else None)
            (\<lambda>v. case v of JNum x \<Rightarrow> Some x | _ \<Rightarrow> None)
            (\<lambda>n q. ([], None))
            ''356938035643809'' ''2024-01-01T00:00:00Z'' ''2024-06-01T00:00:00Z''
            \<lparr>queryApi = True, isConnected = True, iterations = 0, trace = []\<rparr>
          = (Inl (BadRequest msg),
             \<lparr>queryApi = True, isConnected = True, iterations = 0, trace = []\<rparr>)"
  using getTelemetryData_rejects_invalid_range
    [where ar = ieee
       and parseDate = "\<lambda>s. if s = ''2024-01-01T00:00:00Z'' then Some 1704067200000
              else if s = ''2024-06-01T00:00:00Z'' then Some 1717200000000 else None"
       and start = "''2024-01-01T00:00:00Z''" and startDate = 1704067200000
       and stop = "''2024-06-01T00:00:00Z''" and endDate = 1717200000000]
  by simp

text \<open>
  Claim C3, as amended. With no row the function returns \<open>null\<close>. With rows, let \<open>T\<close> be
  the latest timestamp: \<open>T\<close> itself lies in \<open>[T - 12h, T]\<close>, so the recommended window
  always runs from the earliest sample of \<open>[T - 12h, T]\<close> to \<open>T\<close> and counts the samples
  of that interval; the 24 hour and last-1000-samples branches are never taken.
\<close>

theorem getRecommendedTimeRange_recent_window:
  assumes "executeQuery st (RecommendedRangeQuery imei) w = (Inr result, w')"
  shows "(result = [] \<longrightarrow> fst (getRecommendedTimeRange st imei w) = None)
       \<and> (result \<noteq> [] \<longrightarrow>
            fst (getRecommendedTimeRange st imei w) =
              Some \<lparr>rec_start =
                       Min {t \<in> r_time ` set result.
                              Max (r_time ` set result) - 12 * 60 * 60 * 1000 \<le> t},
                     rec_end = Max (r_time ` set result),
                     dataPointsCount =
                       length (filter (\<lambda>r. Max (r_time ` set result) - 12 * 60 * 60 * 1000
                                             \<le> r_time r) result)\<rparr>)"
proof (intro conjI impI)
  assume "result = []"
  then show "fst (getRecommendedTimeRange st imei w) = None"
    using assms by (simp add: getRecommendedTimeRange_def)
next
  assume ne: "result \<noteq> []"
  let ?ts = "map r_time result"
  let ?T = "Max (r_time ` set result)"
  let ?P = "\<lambda>t. ?T - 12 * 60 * 60 * 1000 \<le> t"
  have ts: "?ts \<noteq> []" using ne by simp
  have latest: "sort ?ts ! (length (sort ?ts) - 1) = ?T"
    using sort_nth_last_Max [OF ts] by simp
  have "?T \<in> set ?ts"
    using ne Max_in [of "r_time ` set result"] by simp
  moreover have "?P ?T" by simp
  ultimately have recent: "filter ?P ?ts \<noteq> []"
    unfolding filter_empty_conv by blast
  have start: "sort (filter ?P ?ts) ! 0 = Min {t \<in> r_time ` set result. ?P t}"
  proof -
    have "set (filter ?P ?ts) = {t \<in> r_time ` set result. ?P t}" by auto
    then show ?thesis using sort_nth_0_Min [OF recent] by simp
  qed
  have count: "length (filter ?P ?ts) = length (filter (\<lambda>r. ?P (r_time r)) result)"
    by (simp add: filter_map comp_def)
  show "fst (getRecommendedTimeRange st imei w) =
          Some \<lparr>rec_start = Min {t \<in> r_time ` set result. ?P t}, rec_end = ?T,
                 dataPointsCount = length (filter (\<lambda>r. ?P (r_time r)) result)\<rparr>"
  proof -
    have recentS: "sort (filter ?P ?ts) \<noteq> []"
      using recent by (metis length_sort length_0_conv)
    show ?thesis
      using assms ne recentS latest start count
      by (simp add: getRecommendedTimeRange_def Let_def filter_sort)
  qed
qed


theorem getRecommendedTimeRange_recent_window_witness:
  "fst (getRecommendedTimeRange
          (\<lambda>n q. ([\<lparr>r_imei = JUndefined, r_field = JUndefined, r_value = JUndefined,
                        r_time = 0\<rparr>,
                      \<lparr>r_imei = JUndefined, r_field = JUndefined, r_value = JUndefined,
                        r_time = 360000000\<rparr>,
                      \<lparr>r_imei = JUndefined, r_field = JUndefined, r_value = JUndefined,
                        r_time = 330000000\<rparr>], None))
          ''356938035643809''
          \<lparr>queryApi = True, isConnected = True, iterations = 0, trace = []\<rparr>)
   = Some \<lparr>rec_start = 330000000, rec_end = 360000000, dataPointsCount = 2\<rparr>"
proof -
  let ?rows = "[\<lparr>r_imei = JUndefined, r_field = JUndefined, r_value = JUndefined, r_time = 0\<rparr>,
                \<lparr>r_imei = JUndefined, r_field = JUndefined, r_value = JUndefined,
                  r_time = 360000000\<rparr>,
                \<lparr>r_imei = JUndefined, r_field = JUndefined, r_value = JUndefined,
                  r_time = 330000000\<rparr>]"
  let ?st = "\<lambda>(n::nat) (q::query). (?rows, None :: string option)"
  let ?w = "\<lparr>queryApi = True, isConnected = True, iterations = 0, trace = []\<rparr>"
  have e: "executeQuery ?st (RecommendedRangeQuery ''356938035643809'') ?w =
             (Inr ?rows, ?w\<lparr>iterations := Suc (iterations ?w),
                               trace := trace ?w @ [Iterate (RecommendedRangeQuery ''356938035643809'')]\<rparr>)"
    by (subst executeQuery_first_success [where rows = ?rows]) simp_all
  have s: "{t. (t = 0 \<or> t = 360000000 \<or> t = 330000000) \<and> (316800000::int) \<le> t}
             = {360000000, 330000000}"
    by auto
  show ?thesis
    using getRecommendedTimeRange_recent_window [OF e] by (simp add: s)
qed

text \<open>
  Claim C3 as stated fails: for a device whose samples apart from the latest one are all
  older than 24 hours before the latest one, the last-1000-samples branch would start the
  window at the earliest sample and count both samples; the function returns the window
  that holds the latest sample alone.
\<close>

theorem getRecommendedTimeRange_fallback_counterexample:
  "fst (getRecommendedTimeRange
          (\<lambda>n q. ([\<lparr>r_imei = JUndefined, r_field = JUndefined, r_value = JUndefined,
                        r_time = 0\<rparr>,
                      \<lparr>r_imei = JUndefined, r_field = JUndefined, r_value = JUndefined,
                        r_time = 360000000\<rparr>], None))
          ''356938035643809''
          \<lparr>queryApi = True, isConnected = True, iterations = 0, trace = []\<rparr>)
   = Some \<lparr>rec_start = 360000000, rec_end = 360000000, dataPointsCount = 1\<rparr>
   \<and> Some \<lparr>rec_start = 360000000, rec_end = 360000000, dataPointsCount = 1\<rparr>
     \<noteq> Some \<lparr>rec_start = 0, rec_end = 360000000, dataPointsCount = 2\<rparr>"
  by (simp add: getRecommendedTimeRange_def Let_def
        executeQuery_first_success [where rows = "[\<lparr>r_imei = JUndefined, r_field = JUndefined, r_value = JUndefined,
                        r_time = 0\<rparr>,
                      \<lparr>r_imei = JUndefined, r_field = JUndefined, r_value = JUndefined,
                        r_time = 360000000\<rparr>]"])

subsection \<open>Identifier listing\<close>

lemma uniq_set [simp]: "set (uniq xs) = set xs"
  by (simp add: uniq_def)

lemma uniq_distinct [simp]: "distinct (uniq xs)"
  by (simp add: uniq_def)

lemma getImeisAlternative_sorted_distinct:
  "sorted (fst (getImeisAlternative st w)) \<and> distinct (fst (getImeisAlternative st w))"
  by (simp add: getImeisAlternative_def split: prod.splits sum.splits)

lemma getImeis_sorted_distinct:
  assumes "fst (getImeis st w) = Inr imeis"
  shows "sorted imeis \<and> distinct imeis"
proof -
  obtain res w1 where e: "executeQuery st ImeisQuery w = (res, w1)"
    by (cases "executeQuery st ImeisQuery w")
  show ?thesis
  proof (cases res)
    case (Inl err)
    with assms e show ?thesis by (simp add: getImeis_def)
  next
    case (Inr result)
    show ?thesis
    proof (cases "sort (uniq (List.map_filter imeiOf result)) = []")
      case True
      then have "imeis = fst (getImeisAlternative st w1)"
        using assms e Inr by (simp add: getImeis_def Let_def split: prod.splits)
      then show ?thesis using getImeisAlternative_sorted_distinct by simp
    next
      case False
      then have "imeis = sort (uniq (List.map_filter imeiOf result))"
        using assms e Inr by (simp add: getImeis_def Let_def)
      then show ?thesis by simp
    qed
  qed
qed

text \<open>
  Claim C7 at two inputs. The alternative query has no length filter: when the store
  only knows the identifier \<open>abc\<close>, the primary strategy drops it, the list is empty, and
  the fallback returns it. The primary strategy tests the length before trimming: an
  identifier of 8 characters with blanks around 4 digits passes and is returned trimmed.
\<close>

theorem getImeis_short_identifier:
  "fst (getImeis
          (\<lambda>n q. ([\<lparr>r_imei = JStr ''abc'', r_field = JUndefined, r_value = JUndefined,
                      r_time = 0\<rparr>], None))
          \<lparr>queryApi = True, isConnected = True, iterations = 0, trace = []\<rparr>)
     = Inr [''abc'']
   \<and> fst (getImeis
          (\<lambda>n q. ([\<lparr>r_imei = JStr ''  4521  '', r_field = JUndefined, r_value = JUndefined,
                      r_time = 0\<rparr>], None))
          \<lparr>queryApi = True, isConnected = True, iterations = 0, trace = []\<rparr>)
     = Inr [''4521'']"
  by (simp add: getImeis_def getImeisAlternative_def Let_def imeiOf_def imeiAlternativeOf_def
        js_or_def trim_def isWhiteSpace_def uniq_def List.map_filter_simps
        executeQuery_first_success
          [where rows = "[\<lparr>r_imei = JStr ''abc'', r_field = JUndefined, r_value = JUndefined,
                      r_time = 0\<rparr>]"]
        executeQuery_first_success
          [where rows = "[\<lparr>r_imei = JStr ''  4521  '', r_field = JUndefined, r_value = JUndefined,
                      r_time = 0\<rparr>]"])

subsection \<open>Double arithmetic\<close>

lemma expo2_bounds:
  assumes "0 < x"
  shows "2 powi expo2 x \<le> x \<and> x < 2 powi (expo2 x + 1)"
proof (cases "1 \<le> x")
  case True
  define m where "m = \<lfloor>x\<rfloor>"
  have m: "0 < m" using True by (simp add: m_def)
  have b: "1 \<le> bitlen m" using m bitlen_nonneg [of m] bitlen_eq_zero_iff [of m] by linarith
  have lo: "2 ^ nat (bitlen m - 1) \<le> m" and hi: "m < 2 ^ nat (bitlen m)"
    using bitlen_bounds [OF m] by simp_all
  have "(2::real) ^ nat (bitlen m - 1) \<le> of_int m"
    using lo by (metis of_int_le_iff of_int_numeral of_int_power)
  moreover have "of_int m \<le> x" by (simp add: m_def)
  ultimately have 1: "(2::real) ^ nat (bitlen m - 1) \<le> x" by linarith
  have "m + 1 \<le> 2 ^ nat (bitlen m)" using hi by simp
  then have "of_int (m + 1) \<le> (2::real) ^ nat (bitlen m)"
    by (metis of_int_le_iff of_int_numeral of_int_power)
  moreover have "x < of_int (m + 1)" by (simp add: m_def)
  ultimately have 2: "x < (2::real) ^ nat (bitlen m)" by linarith
  have e: "expo2 x = bitlen m - 1" using True by (simp add: expo2_def m_def)
  show ?thesis
    using 1 2 b unfolding e by (simp add: power_int_def)
next
  case False
  then have x1: "x < 1" by simp
  define c where "c = \<lceil>1 / x\<rceil>"
  have y: "1 < 1 / x" using assms x1 by simp
  then have c2: "0 < c - 1" unfolding c_def by linarith
  define k where "k = bitlen (c - 1)"
  have k1: "1 \<le> k"
    using c2 bitlen_nonneg [of "c - 1"] bitlen_eq_zero_iff [of "c - 1"] unfolding k_def by linarith
  have lo: "2 ^ nat (k - 1) \<le> c - 1" and hi: "c - 1 < 2 ^ nat k"
    using bitlen_bounds [OF c2] by (simp_all add: k_def)
  have "c \<le> 2 ^ nat k" using hi by simp
  then have "of_int c \<le> (2::real) ^ nat k"
    by (metis of_int_le_iff of_int_numeral of_int_power)
  moreover have "1 / x \<le> of_int c" by (simp add: c_def)
  ultimately have "1 / x \<le> 2 ^ nat k" by linarith
  then have 1: "1 / 2 ^ nat k \<le> x"
    using assms by (simp add: field_simps)
  have "(2::real) ^ nat (k - 1) \<le> of_int (c - 1)"
    using lo by (metis of_int_le_iff of_int_numeral of_int_power)
  moreover have "of_int (c - 1) < 1 / x" unfolding c_def by linarith
  ultimately have "2 ^ nat (k - 1) < 1 / x" by linarith
  then have 2: "x < 1 / 2 ^ nat (k - 1)"
    using assms by (simp add: field_simps)
  have e: "expo2 x = - k" using False by (simp add: expo2_def c_def k_def)
  have p1: "(2::real) powi (- k) = 1 / 2 ^ nat k"
    using k1 by (simp add: power_int_def field_simps)
  have p2: "(2::real) powi (- k + 1) = 1 / 2 ^ nat (k - 1)"
  proof (cases "k = 1")
    case True
    then show ?thesis by simp
  next
    case False
    then have "- k + 1 < 0" using k1 by simp
    moreover have "nat (- (- k + 1)) = nat (k - 1)" by simp
    ultimately show ?thesis by (simp add: power_int_def field_simps)
  qed
  show ?thesis
    unfolding e p1 p2 using 1 2 by simp
qed

lemma roundEven_error: "\<bar>of_int (roundEven y) - y\<bar> \<le> 1 / 2"
proof -
  have "of_int \<lfloor>y\<rfloor> \<le> y" and "y < of_int \<lfloor>y\<rfloor> + 1" by linarith+
  then show ?thesis
    unfolding roundEven_def Let_def by (auto simp: abs_le_iff)
qed

lemma roundEven_nonneg: "0 \<le> y \<Longrightarrow> 0 \<le> roundEven y"
  unfolding roundEven_def Let_def by auto

lemma roundEven_nonpos: "y \<le> 0 \<Longrightarrow> roundEven y \<le> 0"
proof -
  assume y: "y \<le> 0"
  show ?thesis
  proof (cases "y = 0")
    case True
    then show ?thesis by (simp add: roundEven_def)
  next
    case False
    with y have "\<lfloor>y\<rfloor> + 1 \<le> 0" by (simp add: floor_less_iff add1_zle_eq)
    then show ?thesis
      unfolding roundEven_def Let_def by auto
  qed
qed

lemma rnd_zero [simp]: "rnd 0 = 0"
  by (simp add: rnd_def)

lemma rnd_nonneg: "0 \<le> x \<Longrightarrow> 0 \<le> rnd x"
  by (auto simp: rnd_def Let_def intro!: mult_nonneg_nonneg roundEven_nonneg divide_nonneg_pos)

lemma rnd_nonpos: "x \<le> 0 \<Longrightarrow> rnd x \<le> 0"
proof -
  assume x: "x \<le> 0"
  show ?thesis
  proof (cases "x = 0")
    case True
    then show ?thesis by simp
  next
    case False
    define u :: real where "u = 2 powi (max (expo2 \<bar>x\<bar>) (- 1022) - 52)"
    have u: "0 < u" by (simp add: u_def)
    have "x / u \<le> 0" using x u by (simp add: divide_nonpos_pos)
    then have "roundEven (x / u) \<le> 0" by (rule roundEven_nonpos)
    then have "of_int (roundEven (x / u)) * u \<le> 0"
      using u by (simp add: mult_le_0_iff)
    then show ?thesis
      using False by (simp add: rnd_def Let_def u_def)
  qed
qed

lemma rnd_error_aux:
  assumes d: "d = (2::real) powi (- 1075)"
  shows "\<bar>rnd x - x\<bar> \<le> \<bar>x\<bar> / 2 ^ 53 + d"
proof (cases "x = 0")
  case True
  have "0 \<le> d" unfolding d by (rule zero_le_power_int) simp
  with True show ?thesis by simp
next
  case False
  have d0: "0 \<le> d" unfolding d by (rule zero_le_power_int) simp
  define e where "e = max (expo2 \<bar>x\<bar>) (- 1022)"
  define u :: real where "u = 2 powi (e - 52)"
  have u: "0 < u" by (simp add: u_def)
  have r: "rnd x = of_int (roundEven (x / u)) * u"
    using False by (simp add: rnd_def Let_def u_def e_def)
  have "\<bar>of_int (roundEven (x / u)) - x / u\<bar> \<le> 1 / 2"
    by (rule roundEven_error)
  then have "\<bar>of_int (roundEven (x / u)) - x / u\<bar> * u \<le> 1 / 2 * u"
    using u by (simp only: mult_le_cancel_right_pos)
  moreover have "\<bar>of_int (roundEven (x / u)) - x / u\<bar> * u = \<bar>rnd x - x\<bar>"
  proof -
    have "(of_int (roundEven (x / u)) - x / u) * u = rnd x - x"
      using u unfolding r by (simp add: field_simps)
    then have "\<bar>rnd x - x\<bar> = \<bar>of_int (roundEven (x / u)) - x / u\<bar> * \<bar>u\<bar>"
      by (metis abs_mult)
    then show ?thesis using u by simp
  qed
  ultimately have half: "\<bar>rnd x - x\<bar> \<le> u / 2" by simp
  show ?thesis
  proof (cases "- 1022 \<le> expo2 \<bar>x\<bar>")
    case True
    then have "e = expo2 \<bar>x\<bar>" by (simp add: e_def)
    moreover have "2 powi expo2 \<bar>x\<bar> \<le> \<bar>x\<bar>"
      using expo2_bounds [of "\<bar>x\<bar>"] False by simp
    moreover have "u / 2 = 2 powi e / 2 ^ 53"
      unfolding u_def by (simp add: power_int_diff)
    ultimately have "u / 2 \<le> \<bar>x\<bar> / 2 ^ 53"
      by (simp add: divide_right_mono)
    then show ?thesis using half d0 by linarith
  next
    case False
    then have "e - 52 = - 1075 + 1" by (simp add: e_def)
    then have "u = 2 powi (- 1075 + 1)" unfolding u_def by (rule arg_cong)
    also have "\<dots> = 2 powi (- 1075) * 2"
      by (subst power_int_add) simp_all
    finally have "u / 2 = d" unfolding d by (simp only: nonzero_mult_div_cancel_right)
    then show ?thesis using half by simp
  qed
qed

lemma rnd_error: "\<bar>rnd x - x\<bar> \<le> \<bar>x\<bar> / 2 ^ 53 + 2 powi (- 1075)"
  by (rule rnd_error_aux) (rule refl)

lemma denormal_small: "(2::real) powi (- 1075) \<le> 1 / 2 ^ 60"
proof -
  have "(2::real) powi (- 1075) \<le> 2 powi (- 60)"
    by (rule power_int_increasing) simp_all
  also have "(2::real) powi (- 60) = 1 / 2 ^ 60"
    by (simp add: power_int_def field_simps)
  finally show ?thesis .
qed

lemma denormal_nonneg: "0 \<le> (2::real) powi (- 1075)"
  by (rule zero_le_power_int) simp

text \<open>First pass: the hundredths chosen for \<open>x\<close>.\<close>

lemma hundredths_first:
  fixes x :: real
  defines "n \<equiv> \<lfloor>rnd (x * 100) + 1 / 2\<rfloor>"
  shows "\<bar>of_int n - x * 100\<bar> \<le> 1 / 2 + \<bar>x * 100\<bar> / 2 ^ 53 + 2 powi (- 1075)"
proof -
  have "of_int n \<le> rnd (x * 100) + 1 / 2" and "rnd (x * 100) + 1 / 2 < of_int n + 1"
    unfolding n_def by linarith+
  moreover have "\<bar>rnd (x * 100) - x * 100\<bar> \<le> \<bar>x * 100\<bar> / 2 ^ 53 + 2 powi (- 1075)"
    by (rule rnd_error)
  ultimately show ?thesis by linarith
qed

text \<open>Second pass: rounding the double nearest to \<open>n / 100\<close> again gives the same double.\<close>

lemma hundredths_again:
  fixes n :: int
  assumes "\<bar>n\<bar> < 2 ^ 50"
  shows "\<lfloor>rnd (rnd (of_int n / 100) * 100) + 1 / 2\<rfloor> = n"
proof -
  define d :: real where "d = 2 powi (- 1075)"
  define y where "y = rnd (of_int n / 100)"
  define p where "p = rnd (y * 100)"
  define a :: real where "a = \<bar>of_int n\<bar>"
  have d: "0 \<le> d" "d \<le> 1 / 2 ^ 60"
    unfolding d_def by (rule denormal_nonneg, rule denormal_small)
  have a: "0 \<le> a" "a < 2 ^ 50"
    using assms unfolding a_def by (simp, metis of_int_abs of_int_less_iff of_int_numeral of_int_power)
  have "\<bar>y - of_int n / 100\<bar> \<le> \<bar>of_int n / 100\<bar> / 2 ^ 53 + d"
    unfolding y_def d_def by (rule rnd_error)
  then have 1: "\<bar>y * 100 - of_int n\<bar> \<le> a / 2 ^ 53 + 100 * d"
    unfolding a_def by (simp add: abs_le_iff field_simps)
  have "\<bar>p - y * 100\<bar> \<le> \<bar>y * 100\<bar> / 2 ^ 53 + d"
    unfolding p_def d_def by (rule rnd_error)
  moreover have "\<bar>y * 100\<bar> \<le> a + a / 2 ^ 53 + 100 * d"
    using 1 unfolding a_def by linarith
  ultimately have 2: "\<bar>p - y * 100\<bar> \<le> (a + a / 2 ^ 53 + 100 * d) / 2 ^ 53 + d"
    by (smt (verit) divide_right_mono zero_le_numeral zero_le_power)
  have b1: "a / 2 ^ 53 < 1 / 8"
    using a by simp
  have b2: "100 * d \<le> 1 / 2 ^ 53" and b3: "d \<le> 1 / 2 ^ 53"
    using d by simp_all
  have "a + a / 2 ^ 53 + 100 * d < 2 ^ 50 + 1"
    using a b1 b2 by simp
  then have "(a + a / 2 ^ 53 + 100 * d) / 2 ^ 53 < (2 ^ 50 + 1) / 2 ^ 53"
    by (simp add: divide_strict_right_mono)
  then have b4: "(a + a / 2 ^ 53 + 100 * d) / 2 ^ 53 < 1 / 8 + 1 / 2 ^ 53"
    by simp
  have "\<bar>p - of_int n\<bar> \<le> \<bar>p - y * 100\<bar> + \<bar>y * 100 - of_int n\<bar>"
    by linarith
  also have "\<dots> < (1 / 8 + 1 / 2 ^ 53 + 1 / 2 ^ 53) + (1 / 8 + 1 / 2 ^ 53)"
    using 1 2 b1 b2 b3 b4 by linarith
  also have "\<dots> < 1 / 2" by simp
  finally have "\<bar>p - of_int n\<bar> < 1 / 2" .
  then have "of_int n \<le> p + 1 / 2" and "p + 1 / 2 < of_int n + 1"
    by linarith+
  then have "\<lfloor>p + 1 / 2\<rfloor> = n"
    by (intro floor_unique) simp_all
  then show ?thesis
    unfolding p_def y_def .
qed

subsection \<open>Series of the result transformer\<close>

lemmas rnd_eval = rnd_def expo2_def compute_bitlen roundEven_def Let_def power_int_minus
  inverse_eq_divide

lemma initialData_lookup:
  "foldl (\<lambda>data field. data(field \<mapsto> [])) d names k =
     (if k \<in> set names then Some [] else d k)"
  by (induction names arbitrary: d) auto

lemma initialData_base:
  "initialData sensors ''speed'' = Some []"
  "initialData sensors ''main_power_voltage'' = Some []"
  by (simp_all add: initialData_def initialData_lookup)

lemma processRecord_voltage:
  "fst (processRecord ar pf (data, cs) r) ''main_power_voltage'' =
     map_option
       (\<lambda>series. series @
          map (\<lambda>r. \<lparr>tv_time = r_time r,
                      tv_value =
                        fdiv ar (math_round (fmul ar
                          (fdiv ar (math_round (fmul ar (fdiv ar (the (pf (r_value r))) 1000) 100))
                             100) 100)) 100\<rparr>)
            (filter (\<lambda>r. r_field r = JStr ''main_power_voltage'' \<and> pf (r_value r) \<noteq> None) [r]))
       (data ''main_power_voltage'')"
proof (cases "pf (r_value r)")
  case None
  then show ?thesis
    by (cases "data ''main_power_voltage''") (simp_all add: processRecord_def)
next
  case (Some v)
  show ?thesis
  proof (cases "r_field r = JStr ''main_power_voltage''")
    case True
    with Some show ?thesis
      by (cases "data ''main_power_voltage''") (simp_all add: processRecord_def)
  next
    case False
    with Some show ?thesis
      by (cases "data ''main_power_voltage''")
         (auto simp: processRecord_def Let_def split: jsval.splits option.splits)
  qed
qed

lemma processRecord_speed:
  "fst (processRecord ar pf (data, cs) r) ''speed'' =
     map_option
       (\<lambda>series. series @
          map (\<lambda>r. \<lparr>tv_time = r_time r,
                      tv_value =
                        fdiv ar (math_round (fmul ar
                          (max 0 (fdiv ar (math_round (fmul ar (the (pf (r_value r))) 100)) 100))
                          100)) 100\<rparr>)
            (filter (\<lambda>r. r_field r = JStr ''speed'' \<and> pf (r_value r) \<noteq> None) [r]))
       (data ''speed'')"
proof (cases "pf (r_value r)")
  case None
  then show ?thesis
    by (cases "data ''speed''") (simp_all add: processRecord_def)
next
  case (Some v)
  show ?thesis
  proof (cases "r_field r = JStr ''speed''")
    case True
    with Some show ?thesis
      by (cases "data ''speed''") (simp_all add: processRecord_def)
  next
    case False
    with Some show ?thesis
      by (cases "data ''speed''")
         (auto simp: processRecord_def Let_def split: jsval.splits option.splits)
  qed
qed

lemma foldl_processRecord_series:
  assumes step: "\<And>data cs r. fst (processRecord ar pf (data, cs) r) name =
                   map_option (\<lambda>series. series @ map E (filter S [r])) (data name)"
  shows "fst (foldl (processRecord ar pf) (data, cs) rows) name =
           map_option (\<lambda>series. series @ map E (filter S rows)) (data name)"
proof (induction rows arbitrary: data cs)
  case Nil
  show ?case by (cases "data name") simp_all
next
  case (Cons r rows)
  obtain data' cs' where p: "processRecord ar pf (data, cs) r = (data', cs')"
    by (cases "processRecord ar pf (data, cs) r")
  have d: "data' name = map_option (\<lambda>series. series @ map E (filter S [r])) (data name)"
    using step [of data cs r] p by simp
  show ?case
    using Cons.IH [of data' cs'] p d by (cases "data name") simp_all
qed

lemma voltage_series_code:
  "main_power_voltage (processResultData ar pf result start stop sensors aggregation) =
     map (\<lambda>r. \<lparr>tv_time = r_time r,
                 tv_value =
                   fdiv ar (math_round (fmul ar
                     (fdiv ar (math_round (fmul ar (fdiv ar (the (pf (r_value r))) 1000) 100))
                        100) 100)) 100\<rparr>)
       (filter (\<lambda>r. r_field r = JStr ''main_power_voltage'' \<and> pf (r_value r) \<noteq> None) result)"
  using foldl_processRecord_series
          [of ar pf "''main_power_voltage''" _ _ "initialData sensors" "[]" result,
           OF processRecord_voltage]
  by (simp add: processResultData_def Let_def split_beta seriesOf_def initialData_base)

lemma speed_series_code:
  "speed (processResultData ar pf result start stop sensors aggregation) =
     map (\<lambda>r. \<lparr>tv_time = r_time r,
                 tv_value =
                   fdiv ar (math_round (fmul ar
                     (max 0 (fdiv ar (math_round (fmul ar (the (pf (r_value r))) 100)) 100))
                     100)) 100\<rparr>)
       (filter (\<lambda>r. r_field r = JStr ''speed'' \<and> pf (r_value r) \<noteq> None) result)"
  using foldl_processRecord_series
          [of ar pf "''speed''" _ _ "initialData sensors" "[]" result,
           OF processRecord_speed]
  by (simp add: processResultData_def Let_def split_beta seriesOf_def initialData_base)

lemma ieee_ops:
  "fmul ieee x y = rnd (x * y)"
  "fdiv ieee x y = rnd (x / y)"
  by (simp_all add: ieee_def)

lemma int_abs_bound:
  fixes n :: int
  assumes "\<bar>real_of_int n\<bar> < 2 ^ 50"
  shows "\<bar>n\<bar> < 2 ^ 50"
proof -
  have "real_of_int \<bar>n\<bar> < real_of_int (2 ^ 50)"
    using assms by simp
  then show ?thesis
    by (simp only: of_int_less_iff)
qed

lemma voltage_value:
  fixes v :: real
  assumes v: "\<bar>v\<bar> < 2 ^ 40"
  defines "n \<equiv> \<lfloor>rnd (rnd (v / 1000) * 100) + 1 / 2\<rfloor>"
  shows "fdiv ieee (math_round (fmul ieee
           (fdiv ieee (math_round (fmul ieee (fdiv ieee v 1000) 100)) 100) 100)) 100
         = rnd (of_int n / 100)"
    and "hundredthsNear (v / 1000) n"
proof -
  define d :: real where "d = 2 powi (- 1075)"
  define x where "x = rnd (v / 1000)"
  define a :: real where "a = \<bar>v / 1000\<bar>"
  have d: "0 \<le> d" "d \<le> 1 / 2 ^ 60"
    unfolding d_def by (rule denormal_nonneg, rule denormal_small)
  have a: "0 \<le> a" "a < 2 ^ 40 / 1000"
    using v unfolding a_def by simp_all
  have 1: "\<bar>x - v / 1000\<bar> \<le> a / 2 ^ 53 + d"
    unfolding x_def a_def d_def by (rule rnd_error)
  have 2: "\<bar>of_int n - x * 100\<bar> \<le> 1 / 2 + \<bar>x * 100\<bar> / 2 ^ 53 + d"
    unfolding n_def x_def d_def by (rule hundredths_first)
  have "\<bar>x\<bar> \<le> a + (a / 2 ^ 53 + d)"
    using 1 unfolding a_def by linarith
  then have x100: "\<bar>x * 100\<bar> \<le> 100 * a + 100 * (a / 2 ^ 53 + d)"
    by (simp add: abs_mult)
  have b1: "100 * (a / 2 ^ 53 + d) \<le> a / 2 ^ 46 + 1 / 2 ^ 53"
    using a d by simp
  have "\<bar>x * 100\<bar> / 2 ^ 53 \<le> (100 * a + (a / 2 ^ 46 + 1 / 2 ^ 53)) / 2 ^ 53"
    using x100 b1 by (intro divide_right_mono) simp_all
  also have "\<dots> \<le> a / 2 ^ 46 + 1 / 2 ^ 53"
    using a by simp
  finally have b2: "\<bar>x * 100\<bar> / 2 ^ 53 \<le> a / 2 ^ 46 + 1 / 2 ^ 53" .
  have "of_int n - v / 1000 * 100 = (of_int n - x * 100) + 100 * (x - v / 1000)"
    by simp
  then have "\<bar>of_int n - v / 1000 * 100\<bar> \<le> \<bar>of_int n - x * 100\<bar> + \<bar>100 * (x - v / 1000)\<bar>"
    by (simp only: abs_triangle_ineq)
  also have "\<bar>100 * (x - v / 1000)\<bar> = 100 * \<bar>x - v / 1000\<bar>"
    by (simp only: abs_mult abs_numeral)
  finally have "\<bar>of_int n - v / 1000 * 100\<bar> \<le> \<bar>of_int n - x * 100\<bar> + 100 * \<bar>x - v / 1000\<bar>" .
  also have "\<dots> \<le> 1 / 2 + (a / 2 ^ 46 + 1 / 2 ^ 53) + d + (a / 2 ^ 46 + 1 / 2 ^ 53)"
  proof -
    define P where "P = \<bar>x - v / 1000\<bar>"
    define Q where "Q = \<bar>of_int n - x * 100\<bar>"
    define R where "R = \<bar>x * 100\<bar> / 2 ^ 53"
    define S :: real where "S = a / 2 ^ 46 + 1 / 2 ^ 53"
    define T :: real where "T = a / 2 ^ 53 + d"
    have "P \<le> T" "Q \<le> 1 / 2 + R + d" "100 * T \<le> S" "R \<le> S"
      using 1 2 b1 b2 unfolding P_def Q_def R_def S_def T_def by blast+
    then have "Q + 100 * P \<le> 1 / 2 + S + d + S"
      by linarith
    then show ?thesis
      unfolding P_def Q_def S_def .
  qed
  also have "\<dots> \<le> 1 / 2 + (a + 1) / 2 ^ 40"
    using a d by (simp, argo)
  finally have near: "\<bar>of_int n - v / 1000 * 100\<bar> \<le> 1 / 2 + (a + 1) / 2 ^ 40" .
  then show "hundredthsNear (v / 1000) n"
    by (simp add: hundredthsNear_def a_def)
  have "(a + 1) / 2 ^ 40 < 1"
    using a by simp
  moreover have "\<bar>v / 1000 * 100\<bar> < 2 ^ 40"
    using v by simp
  moreover have "(2::real) ^ 40 + 2 \<le> 2 ^ 50"
    by simp
  ultimately have "\<bar>real_of_int n\<bar> < 2 ^ 50"
    using near by linarith
  then have "\<bar>n\<bar> < 2 ^ 50"
    by (rule int_abs_bound)
  then have "\<lfloor>rnd (rnd (of_int n / 100) * 100) + 1 / 2\<rfloor> = n"
    by (rule hundredths_again)
  then show "fdiv ieee (math_round (fmul ieee
           (fdiv ieee (math_round (fmul ieee (fdiv ieee v 1000) 100)) 100) 100)) 100
         = rnd (of_int n / 100)"
    by (simp add: ieee_ops math_round_def n_def)
qed

lemma speed_value_nonpos:
  fixes v :: real
  assumes "v \<le> 0"
  shows "fdiv ieee (math_round (fmul ieee
           (max 0 (fdiv ieee (math_round (fmul ieee v 100)) 100)) 100)) 100 = 0"
proof -
  have "rnd (v * 100) \<le> 0"
    using assms by (intro rnd_nonpos) simp
  then have "\<lfloor>rnd (v * 100) + 1 / 2\<rfloor> \<le> 0"
    by (simp add: floor_le_iff)
  then have "rnd (of_int \<lfloor>rnd (v * 100) + 1 / 2\<rfloor> / 100) \<le> 0"
    by (intro rnd_nonpos) (simp add: divide_nonpos_pos)
  then have "max 0 (rnd (of_int \<lfloor>rnd (v * 100) + 1 / 2\<rfloor> / 100)) = 0"
    by simp
  then show ?thesis
    by (simp add: ieee_ops math_round_def)
qed

lemma speed_value:
  fixes v :: real
  assumes v: "\<bar>v\<bar> < 2 ^ 40"
  defines "n \<equiv> \<lfloor>rnd (v * 100) + 1 / 2\<rfloor>"
  shows "fdiv ieee (math_round (fmul ieee
           (max 0 (fdiv ieee (math_round (fmul ieee v 100)) 100)) 100)) 100
         = rnd (of_int (max 0 n) / 100)"
    and "hundredthsNear v n"
proof -
  define d :: real where "d = 2 powi (- 1075)"
  have d: "0 \<le> d" "d \<le> 1 / 2 ^ 60"
    unfolding d_def by (rule denormal_nonneg, rule denormal_small)
  have "\<bar>of_int n - v * 100\<bar> \<le> 1 / 2 + \<bar>v * 100\<bar> / 2 ^ 53 + d"
    unfolding n_def d_def by (rule hundredths_first)
  moreover have "\<bar>v * 100\<bar> / 2 ^ 53 \<le> \<bar>v\<bar> / 2 ^ 46"
    by simp
  moreover have "\<bar>v\<bar> / 2 ^ 46 + d \<le> (\<bar>v\<bar> + 1) / 2 ^ 40"
    using d by simp
  ultimately have near: "\<bar>of_int n - v * 100\<bar> \<le> 1 / 2 + (\<bar>v\<bar> + 1) / 2 ^ 40"
    by linarith
  then show "hundredthsNear v n"
    by (simp add: hundredthsNear_def)
  have "(\<bar>v\<bar> + 1) / 2 ^ 40 < 2"
    using v by simp
  moreover have "\<bar>v * 100\<bar> < 2 ^ 47"
    using v by simp
  moreover have "(2::real) ^ 47 + 3 \<le> 2 ^ 50"
    by simp
  ultimately have "\<bar>real_of_int n\<bar> < 2 ^ 50"
    using near by linarith
  then have n50: "\<bar>n\<bar> < 2 ^ 50"
    by (rule int_abs_bound)
  show "fdiv ieee (math_round (fmul ieee
           (max 0 (fdiv ieee (math_round (fmul ieee v 100)) 100)) 100)) 100
         = rnd (of_int (max 0 n) / 100)"
  proof (cases "n \<le> 0")
    case True
    then have "rnd (of_int n / 100) \<le> 0"
      by (intro rnd_nonpos) (simp add: divide_nonpos_pos)
    then have "max 0 (rnd (of_int n / 100)) = 0"
      by simp
    with True show ?thesis
      by (simp add: ieee_ops math_round_def n_def [symmetric] max_def)
  next
    case False
    then have "0 \<le> rnd (of_int n / 100)"
      by (intro rnd_nonneg) simp
    then have m: "max 0 (rnd (of_int n / 100)) = rnd (of_int n / 100)"
      by simp
    have "\<lfloor>rnd (rnd (of_int n / 100) * 100) + 1 / 2\<rfloor> = n"
      using n50 by (rule hundredths_again)
    with False m show ?thesis
      by (simp add: ieee_ops math_round_def n_def [symmetric] max_def)
  qed
qed

lemma voltage_12345:
  "fdiv ieee (math_round (fmul ieee
     (fdiv ieee (math_round (fmul ieee (fdiv ieee 12345 1000) 100)) 100) 100)) 100
   = rnd (1235 / 100)"
proof -
  have a: "fdiv ieee 12345 1000 = 6949617174986097 / 562949953421312"
    by (simp add: ieee_ops rnd_eval)
  have b: "fmul ieee (6949617174986097 / 562949953421312) 100 = 2469 / 2"
    by (simp add: ieee_ops rnd_eval)
  have c: "math_round (2469 / 2) = 1235"
    by (simp add: math_round_def)
  have d: "fmul ieee (fdiv ieee 1235 100) 100 = 1235"
    by (simp add: ieee_ops rnd_eval)
  have e: "math_round 1235 = 1235"
    by (simp add: math_round_def)
  have f: "fdiv ieee 1235 100 = rnd (1235 / 100)"
    by (simp only: ieee_ops)
  show ?thesis
    by (simp only: a b c d e, simp only: f)
qed

lemma voltage_1005:
  "fdiv ieee (math_round (fmul ieee
     (fdiv ieee (math_round (fmul ieee (fdiv ieee 1005 1000) 100)) 100) 100)) 100
   = 1"
proof -
  have a: "fdiv ieee 1005 1000 = 1131529406376837 / 1125899906842624"
    by (simp add: ieee_ops rnd_eval)
  have b: "fmul ieee (1131529406376837 / 1125899906842624) 100
             = 7072058789855231 / 70368744177664"
    by (simp add: ieee_ops rnd_eval)
  have c: "math_round (7072058789855231 / 70368744177664) = 100"
    by (simp add: math_round_def)
  have d: "fdiv ieee 100 100 = 1"
    by (simp add: ieee_ops rnd_eval)
  have e: "fmul ieee 1 100 = 100"
    by (simp add: ieee_ops rnd_eval)
  have f: "math_round 100 = 100"
    by (simp add: math_round_def)
  show ?thesis
    by (simp only: a b c d e f)
qed

lemma speed_near_tie:
  "fdiv ieee (math_round (fmul ieee
     (max 0 (fdiv ieee (math_round (fmul ieee (1080863910568919 / 72057594037927936) 100)) 100))
     100)) 100
   = 5764607523034235 / 288230376151711744"
proof -
  have a: "fmul ieee (1080863910568919 / 72057594037927936) 100 = 3 / 2"
    by (simp add: ieee_ops rnd_eval)
  have b: "math_round (3 / 2) = 2"
    by (simp add: math_round_def)
  have c: "fdiv ieee 2 100 = 5764607523034235 / 288230376151711744"
    by (simp add: ieee_ops rnd_eval)
  have d: "max 0 (5764607523034235 / 288230376151711744 :: real)
             = 5764607523034235 / 288230376151711744"
    by simp
  have e: "fmul ieee (5764607523034235 / 288230376151711744) 100 = 2"
    by (simp add: ieee_ops rnd_eval)
  have f: "math_round 2 = 2"
    by (simp add: math_round_def)
  show ?thesis
    by (simp only: a b c d e f)
qed

lemma list_all2_map_same:
  "list_all2 P xs (map f xs) \<longleftrightarrow> (\<forall>x\<in>set xs. P x (f x))"
  by (simp add: list_all2_map2 list_all2_same)

text \<open>
  Claim C8, as amended. Every \<open>main_power_voltage\<close> row whose value parses to a number
  gives one point of the voltage series, in the order of arrival. For a parsed value \<open>v\<close>
  of magnitude below \<open>2 ^ 40\<close> the value of the point is the double nearest to \<open>n / 100\<close>
  for an integer \<open>n\<close> within one half, and the rounding error of the double division and
  product, of \<open>v / 10\<close>: the raw value divided by 1000 and rounded to two decimal places
  up to that error. A raw value of 12345 gives the double nearest to 12.35.
\<close>

theorem voltage_series:
  "list_all2
     (\<lambda>r p. tv_time p = r_time r \<and>
        (\<forall>v. parseFloat (r_value r) = Some v \<and> \<bar>v\<bar> < 2 ^ 40 \<longrightarrow>
           (\<exists>n. tv_value p = rnd (of_int n / 100) \<and> hundredthsNear (v / 1000) n)))
     (filter (\<lambda>r. r_field r = JStr ''main_power_voltage'' \<and> parseFloat (r_value r) \<noteq> None)
        result)
     (main_power_voltage (processResultData ieee parseFloat result start stop sensors aggregation))
   \<and> (parseFloat raw = Some 12345 \<longrightarrow>
        main_power_voltage
          (processResultData ieee parseFloat
             [\<lparr>r_imei = imei, r_field = JStr ''main_power_voltage'', r_value = raw, r_time = t\<rparr>]
             start stop sensors aggregation)
        = [\<lparr>tv_time = t, tv_value = rnd (1235 / 100)\<rparr>])"
proof (intro conjI impI)
  show "list_all2
     (\<lambda>r p. tv_time p = r_time r \<and>
        (\<forall>v. parseFloat (r_value r) = Some v \<and> \<bar>v\<bar> < 2 ^ 40 \<longrightarrow>
           (\<exists>n. tv_value p = rnd (of_int n / 100) \<and> hundredthsNear (v / 1000) n)))
     (filter (\<lambda>r. r_field r = JStr ''main_power_voltage'' \<and> parseFloat (r_value r) \<noteq> None)
        result)
     (main_power_voltage (processResultData ieee parseFloat result start stop sensors aggregation))"
    unfolding voltage_series_code list_all2_map_same
    using voltage_value by fastforce
next
  assume raw: "parseFloat raw = Some 12345"
  show "main_power_voltage
          (processResultData ieee parseFloat
             [\<lparr>r_imei = imei, r_field = JStr ''main_power_voltage'', r_value = raw, r_time = t\<rparr>]
             start stop sensors aggregation)
        = [\<lparr>tv_time = t, tv_value = rnd (1235 / 100)\<rparr>]"
    using raw by (simp add: voltage_series_code voltage_12345)
qed

theorem voltage_series_witness:
  "main_power_voltage
     (processResultData ieee (\<lambda>v. case v of JNum x \<Rightarrow> Some x | _ \<Rightarrow> None)
        [\<lparr>r_imei = JUndefined, r_field = JStr ''main_power_voltage'', r_value = JNum 12345,
          r_time = 1704067200000\<rparr>]
        ''2024-01-01T00:00:00Z'' ''2024-01-01T06:00:00Z'' [] False)
     = [\<lparr>tv_time = 1704067200000, tv_value = rnd (1235 / 100)\<rparr>]
   \<and> rnd (1235 / 100) = 6952431924753203 / 562949953421312
   \<and> (\<exists>n. rnd (1235 / 100) = rnd (of_int n / 100) \<and> hundredthsNear (12345 / 1000) n)"
proof -
  let ?pf = "\<lambda>v. case v of JNum x \<Rightarrow> Some x | _ \<Rightarrow> None"
  let ?row = "\<lparr>r_imei = JUndefined, r_field = JStr ''main_power_voltage'', r_value = JNum 12345,
                r_time = 1704067200000\<rparr>"
  note w = voltage_series
             [of ?pf "[?row]" "''2024-01-01T00:00:00Z''" "''2024-01-01T06:00:00Z''" "[]" False
                 "JNum 12345" JUndefined 1704067200000]
  have s: "main_power_voltage
             (processResultData ieee ?pf [?row]
                ''2024-01-01T00:00:00Z'' ''2024-01-01T06:00:00Z'' [] False)
           = [\<lparr>tv_time = 1704067200000, tv_value = rnd (1235 / 100)\<rparr>]"
    using w by simp
  have "\<exists>n. rnd (1235 / 100) = rnd (of_int n / 100) \<and> hundredthsNear (12345 / 1000) n"
    using w unfolding s by simp
  moreover have "rnd (1235 / 100) = 6952431924753203 / 562949953421312"
    by (simp add: rnd_eval)
  ultimately show ?thesis
    using s by blast
qed

text \<open>
  Claim C8 as stated fails: for the raw value 1005 the quotient by 1000 is the double below
  1.005 and its product with 100 the double below 100.5, so the point has the value 1,
  where 1.005 rounded to two decimal places is 1.01.
\<close>

theorem voltage_series_counterexample:
  "main_power_voltage
     (processResultData ieee (\<lambda>v. case v of JNum x \<Rightarrow> Some x | _ \<Rightarrow> None)
        [\<lparr>r_imei = JUndefined, r_field = JStr ''main_power_voltage'', r_value = JNum 1005,
          r_time = 1704067200000\<rparr>]
        ''2024-01-01T00:00:00Z'' ''2024-01-01T06:00:00Z'' [] False)
     = [\<lparr>tv_time = 1704067200000, tv_value = 1\<rparr>]
   \<and> roundTo2 (1005 / 1000) = 101 / 100"
proof -
  have "roundTo2 (1005 / 1000) = 101 / 100"
    by (simp add: roundTo2_def)
  then show ?thesis
    by (simp add: voltage_series_code voltage_1005)
qed

text \<open>
  Claim C9, as amended. Every \<open>speed\<close> row whose value parses to a number gives one point
  of the speed series, in the order of arrival: no such row is dropped. The value of the
  point is 0 when the parsed value \<open>v\<close> is at most 0, so a raw value of -3.2 gives 0. For
  \<open>v\<close> of magnitude below \<open>2 ^ 40\<close> the value is the double nearest to \<open>max 0 n / 100\<close> for
  an integer \<open>n\<close> within one half, and the rounding error of the double product, of
  \<open>100 * v\<close>: the raw value rounded to two decimal places up to that error, and clamped
  to be at least 0.
\<close>

theorem speed_series:
  "list_all2
     (\<lambda>r p. tv_time p = r_time r \<and>
        (\<forall>v. parseFloat (r_value r) = Some v \<longrightarrow>
           (v \<le> 0 \<longrightarrow> tv_value p = 0) \<and>
           (\<bar>v\<bar> < 2 ^ 40 \<longrightarrow>
              (\<exists>n. tv_value p = rnd (of_int (max 0 n) / 100) \<and> hundredthsNear v n))))
     (filter (\<lambda>r. r_field r = JStr ''speed'' \<and> parseFloat (r_value r) \<noteq> None) result)
     (speed (processResultData ieee parseFloat result start stop sensors aggregation))"
  unfolding speed_series_code list_all2_map_same
  using speed_value speed_value_nonpos by fastforce

theorem speed_series_witness:
  "speed
     (processResultData ieee (\<lambda>v. case v of JNum x \<Rightarrow> Some x | _ \<Rightarrow> None)
        [\<lparr>r_imei = JUndefined, r_field = JStr ''speed'',
          r_value = JNum (- (3602879701896397 / 1125899906842624)),
          r_time = 1704067200000\<rparr>]
        ''2024-01-01T00:00:00Z'' ''2024-01-01T06:00:00Z'' [] False)
     = [\<lparr>tv_time = 1704067200000, tv_value = 0\<rparr>]
   \<and> rnd (- 32 / 10) = - (3602879701896397 / 1125899906842624)
   \<and> (\<exists>n. (0::real) = rnd (of_int (max 0 n) / 100)
          \<and> hundredthsNear (- (3602879701896397 / 1125899906842624)) n)"
proof -
  let ?pf = "\<lambda>v. case v of JNum x \<Rightarrow> Some x | _ \<Rightarrow> None"
  let ?row = "\<lparr>r_imei = JUndefined, r_field = JStr ''speed'',
                r_value = JNum (- (3602879701896397 / 1125899906842624)),
                r_time = 1704067200000\<rparr>"
  obtain p where s: "speed (processResultData ieee ?pf [?row]
                       ''2024-01-01T00:00:00Z'' ''2024-01-01T06:00:00Z'' [] False) = [p]"
    and t: "tv_time p = 1704067200000" and v: "tv_value p = 0"
    and n: "\<exists>n. tv_value p = rnd (of_int (max 0 n) / 100)
              \<and> hundredthsNear (- (3602879701896397 / 1125899906842624)) n"
    using speed_series
            [of ?pf "[?row]" "''2024-01-01T00:00:00Z''" "''2024-01-01T06:00:00Z''" "[]" False]
    by (auto simp: list_all2_Cons1, blast)
  have "p = \<lparr>tv_time = 1704067200000, tv_value = 0\<rparr>"
    using t v by (cases p) simp
  moreover have "rnd (- 32 / 10) = - (3602879701896397 / 1125899906842624)"
    by (simp add: rnd_eval)
  ultimately show ?thesis
    using s n v by simp
qed

text \<open>
  Claim C9 as stated fails: the double nearest to 0.015 lies below 0.015 and rounds to 0.01,
  but its product with 100 is the double 1.5, so the point has the value of the double
  nearest to 0.02.
\<close>

theorem speed_series_counterexample:
  "speed
     (processResultData ieee (\<lambda>v. case v of JNum x \<Rightarrow> Some x | _ \<Rightarrow> None)
        [\<lparr>r_imei = JUndefined, r_field = JStr ''speed'',
          r_value = JNum (1080863910568919 / 72057594037927936),
          r_time = 1704067200000\<rparr>]
        ''2024-01-01T00:00:00Z'' ''2024-01-01T06:00:00Z'' [] False)
     = [\<lparr>tv_time = 1704067200000, tv_value = 5764607523034235 / 288230376151711744\<rparr>]
   \<and> rnd (2 / 100) = 5764607523034235 / 288230376151711744
   \<and> max 0 (roundTo2 (1080863910568919 / 72057594037927936)) = 1 / 100"
proof -
  have "rnd (2 / 100) = 5764607523034235 / 288230376151711744"
    by (simp add: rnd_eval)
  moreover have "max 0 (roundTo2 (1080863910568919 / 72057594037927936)) = 1 / 100"
    by (simp add: roundTo2_def)
  moreover have "speed
     (processResultData ieee (\<lambda>v. case v of JNum x \<Rightarrow> Some x | _ \<Rightarrow> None)
        [\<lparr>r_imei = JUndefined, r_field = JStr ''speed'',
          r_value = JNum (1080863910568919 / 72057594037927936),
          r_time = 1704067200000\<rparr>]
        ''2024-01-01T00:00:00Z'' ''2024-01-01T06:00:00Z'' [] False)
     = [\<lparr>tv_time = 1704067200000, tv_value = 5764607523034235 / 288230376151711744\<rparr>]"
    by (simp add: speed_series_code speed_near_tie del: not_None_eq)
  ultimately show ?thesis by blast
qed

subsection \<open>Track of the result transformer\<close>

lemma processRecord_coordinates:
  "snd (processRecord ar pf (data, cs) r) =
     (if validCoordinate pf ''latitude'' r
        then mergeCoordinate True (r_time r) (the (pf (r_value r))) cs
      else if validCoordinate pf ''longitude'' r
        then mergeCoordinate False (r_time r) (the (pf (r_value r))) cs
      else cs)"
  by (auto simp: processRecord_def validCoordinate_def Let_def
           split: option.splits jsval.splits)

lemma coordinateAt_Nil [simp]: "coordinateAt pf name t [] = None"
  by (simp add: coordinateAt_def)

lemma coordinateAt_snoc:
  "coordinateAt pf name t (rows @ [r]) =
     (if r_time r = t \<and> validCoordinate pf name r then pf (r_value r)
      else coordinateAt pf name t rows)"
  by (cases "filter (\<lambda>r. r_time r = t \<and> validCoordinate pf name r) rows")
     (simp_all add: coordinateAt_def)

lemma coordinateAt_valid:
  assumes "coordinateAt pf name t rows = Some v"
  shows "v \<noteq> 0 \<and> (if name = ''latitude'' then - 90 \<le> v \<and> v \<le> 90 else - 180 \<le> v \<and> v \<le> 180)"
proof -
  let ?sel = "filter (\<lambda>r. r_time r = t \<and> validCoordinate pf name r) rows"
  from assms have ne: "?sel \<noteq> []" and v: "pf (r_value (last ?sel)) = Some v"
    by (auto simp: coordinateAt_def split: list.splits)
  have "last ?sel \<in> set ?sel" using ne by (rule last_in_set)
  then have "validCoordinate pf name (last ?sel)" by simp
  with v show ?thesis by (simp add: validCoordinate_def)
qed

lemma validCoordinate_parsed:
  "validCoordinate pf name r \<Longrightarrow> pf (r_value r) = Some (the (pf (r_value r)))"
  by (auto simp: validCoordinate_def split: option.splits)

lemma validCoordinate_exclusive:
  "validCoordinate pf ''latitude'' r \<Longrightarrow> \<not> validCoordinate pf ''longitude'' r"
  by (simp add: validCoordinate_def)

lemma mergeCoordinate_times:
  "c_time ` set (mergeCoordinate b t v cs) = insert t (c_time ` set cs)"
  by (induction cs) auto

lemma mergeCoordinate_distinct:
  "distinct (map c_time cs) \<Longrightarrow> distinct (map c_time (mergeCoordinate b t v cs))"
proof (induction cs)
  case Nil
  then show ?case by simp
next
  case (Cons c cs)
  have "c_time c \<noteq> t \<Longrightarrow> c_time c \<notin> c_time ` set (mergeCoordinate b t v cs)"
    using Cons.prems by (simp add: mergeCoordinate_times)
  with Cons show ?case by auto
qed

lemma mergeCoordinate_lookup:
  "map_of (map (\<lambda>c. (c_time c, (c_lat c, c_lon c))) (mergeCoordinate b t v cs)) =
     (map_of (map (\<lambda>c. (c_time c, (c_lat c, c_lon c))) cs))
       (t \<mapsto> (case map_of (map (\<lambda>c. (c_time c, (c_lat c, c_lon c))) cs) t of
                None \<Rightarrow> if b then (Some v, None) else (None, Some v)
              | Some (la, lo) \<Rightarrow> if b then (Some v, lo) else (la, Some v)))"
  by (induction cs) (auto simp: fun_eq_iff)

lemma coordinates_invariant:
  "distinct (map c_time (snd (foldl (processRecord ar pf) (data, []) rows)))
   \<and> (\<forall>t. map_of (map (\<lambda>c. (c_time c, (c_lat c, c_lon c)))
                  (snd (foldl (processRecord ar pf) (data, []) rows))) t =
           (if coordinateAt pf ''latitude'' t rows = None
               \<and> coordinateAt pf ''longitude'' t rows = None
            then None
            else Some (coordinateAt pf ''latitude'' t rows,
                       coordinateAt pf ''longitude'' t rows)))"
proof (induction rows rule: rev_induct)
  case Nil
  show ?case by simp
next
  case (snoc r rows)
  obtain d cs where f: "foldl (processRecord ar pf) (data, []) rows = (d, cs)"
    by (cases "foldl (processRecord ar pf) (data, []) rows")
  have dist: "distinct (map c_time cs)"
    and tbl: "\<And>t. map_of (map (\<lambda>c. (c_time c, (c_lat c, c_lon c))) cs) t =
           (if coordinateAt pf ''latitude'' t rows = None
               \<and> coordinateAt pf ''longitude'' t rows = None
            then None
            else Some (coordinateAt pf ''latitude'' t rows,
                       coordinateAt pf ''longitude'' t rows))"
    using snoc.IH f by simp_all
  have s: "snd (foldl (processRecord ar pf) (data, []) (rows @ [r])) =
             snd (processRecord ar pf (d, cs) r)"
    using f by simp
  consider (lat) "validCoordinate pf ''latitude'' r"
    | (lon) "\<not> validCoordinate pf ''latitude'' r" "validCoordinate pf ''longitude'' r"
    | (none) "\<not> validCoordinate pf ''latitude'' r" "\<not> validCoordinate pf ''longitude'' r"
    by blast
  then show ?case
  proof cases
    case lat
    then have nl: "\<not> validCoordinate pf ''longitude'' r"
      by (rule validCoordinate_exclusive)
    have p: "pf (r_value r) = Some (the (pf (r_value r)))"
      using lat by (rule validCoordinate_parsed)
    show ?thesis
      unfolding s processRecord_coordinates
      using lat nl dist p
      by (auto simp: mergeCoordinate_distinct mergeCoordinate_lookup tbl coordinateAt_snoc)
  next
    case lon
    have p: "pf (r_value r) = Some (the (pf (r_value r)))"
      using lon(2) by (rule validCoordinate_parsed)
    show ?thesis
      unfolding s processRecord_coordinates
      using lon dist p
      by (auto simp: mergeCoordinate_distinct mergeCoordinate_lookup tbl coordinateAt_snoc)
  next
    case none
    then show ?thesis
      unfolding s processRecord_coordinates
      using dist by (simp add: tbl coordinateAt_snoc)
  qed
qed


lemma trackPointOf_Some:
  "trackPointOf c = Some p \<longleftrightarrow>
     c_lat c = Some (lat p) \<and> c_lon c = Some (lon p)
     \<and> lat p \<noteq> 0 \<and> lon p \<noteq> 0 \<and> - 90 \<le> lat p \<and> lat p \<le> 90
     \<and> - 180 \<le> lon p \<and> lon p \<le> 180
     \<and> tp_time p = c_time c \<and> event_time p = c_time c div 1000"
  by (cases p) (auto simp: trackPointOf_def split: option.splits)

lemma set_map_filter: "set (List.map_filter f xs) = {y. \<exists>x\<in>set xs. f x = Some y}"
  by (induction xs) (auto split: option.splits)

lemma set_trackOf: "set (trackOf cs) = {p. \<exists>c\<in>set cs. trackPointOf c = Some p}"
  by (simp add: trackOf_def set_map_filter)

lemma trackPointOf_time: "trackPointOf c = Some p \<Longrightarrow> tp_time p = c_time c"
  by (simp add: trackPointOf_Some)

lemma trackOf_times:
  "map tp_time (List.map_filter trackPointOf cs) =
     map c_time (filter (\<lambda>c. trackPointOf c \<noteq> None) cs)"
  by (induction cs) (auto simp: trackPointOf_time split: option.splits)

lemma trackOf_strictly_sorted:
  assumes "distinct (map c_time cs)"
  shows "sorted_wrt (<) (map tp_time (trackOf cs))"
proof -
  let ?ps = "List.map_filter trackPointOf cs"
  have d: "distinct (map tp_time ?ps)"
    unfolding trackOf_times using assms by (rule distinct_map_filter)
  then have "distinct ?ps" and "inj_on tp_time (set ?ps)"
    by (simp_all add: distinct_map)
  then have "distinct (map tp_time (sort_key tp_time ?ps))"
    by (simp add: distinct_map)
  moreover have "sorted (map tp_time (sort_key tp_time ?ps))"
    by (rule sorted_sort_key)
  ultimately show ?thesis
    by (simp add: trackOf_def strict_sorted_iff)
qed

lemma coordinates_lookup_mem:
  assumes "distinct (map c_time cs)"
  shows "(\<exists>c\<in>set cs. c_time c = t \<and> c_lat c = la \<and> c_lon c = lo) \<longleftrightarrow>
           map_of (map (\<lambda>c. (c_time c, (c_lat c, c_lon c))) cs) t = Some (la, lo)"
proof -
  have "distinct (map fst (map (\<lambda>c. (c_time c, (c_lat c, c_lon c))) cs))"
    using assms by (simp add: comp_def)
  then have "map_of (map (\<lambda>c. (c_time c, (c_lat c, c_lon c))) cs) t = Some (la, lo) \<longleftrightarrow>
               (t, (la, lo)) \<in> set (map (\<lambda>c. (c_time c, (c_lat c, c_lon c))) cs)"
    by (rule map_of_eq_Some_iff)
  then show ?thesis by auto
qed

lemma track_processResultData:
  "track (processResultData ar pf result start stop sensors aggregation) =
     trackOf (snd (foldl (processRecord ar pf) (initialData sensors, []) result))"
  by (simp add: processResultData_def Let_def split_beta)

text \<open>
  Claim C5. A point is in the track exactly when its timestamp has a valid latitude row
  and a valid longitude row, and its coordinates are the values of (the last of) these
  rows; every point of the track has a latitude in \<open>[-90, 90]\<close>, a longitude in
  \<open>[-180, 180]\<close> and neither of them 0; and the timestamps of the track are strictly
  ascending, whatever the order of the rows. In the example that follows the theorem the
  rows arrive out of order, and the pair (lat = 0, lon = 55) leaves no point.
\<close>

theorem track_characterisation:
  "(p \<in> set (track (processResultData ar parseFloat result start stop sensors aggregation)) \<longleftrightarrow>
      coordinateAt parseFloat ''latitude'' (tp_time p) result = Some (lat p)
      \<and> coordinateAt parseFloat ''longitude'' (tp_time p) result = Some (lon p)
      \<and> event_time p = tp_time p div 1000)
   \<and> (p \<in> set (track (processResultData ar parseFloat result start stop sensors aggregation)) \<longrightarrow>
      lat p \<noteq> 0 \<and> lon p \<noteq> 0 \<and> - 90 \<le> lat p \<and> lat p \<le> 90
      \<and> - 180 \<le> lon p \<and> lon p \<le> 180)
   \<and> sorted_wrt (<)
        (map tp_time (track (processResultData ar parseFloat result start stop sensors aggregation)))"
proof -
  let ?cs = "snd (foldl (processRecord ar parseFloat) (initialData sensors, []) result)"
  let ?la = "coordinateAt parseFloat ''latitude'' (tp_time p) result"
  let ?lo = "coordinateAt parseFloat ''longitude'' (tp_time p) result"
  have dist: "distinct (map c_time ?cs)"
    and tbl: "map_of (map (\<lambda>c. (c_time c, (c_lat c, c_lon c))) ?cs) (tp_time p) =
                (if ?la = None \<and> ?lo = None then None else Some (?la, ?lo))"
    using coordinates_invariant [of ar parseFloat "initialData sensors" result] by simp_all
  have valid: "lat p \<noteq> 0 \<and> lon p \<noteq> 0 \<and> - 90 \<le> lat p \<and> lat p \<le> 90
                 \<and> - 180 \<le> lon p \<and> lon p \<le> 180"
    if "?la = Some (lat p)" and "?lo = Some (lon p)"
    using coordinateAt_valid [OF that(1)] coordinateAt_valid [OF that(2)] by simp
  have "p \<in> set (trackOf ?cs) \<longleftrightarrow>
          (\<exists>c\<in>set ?cs. c_time c = tp_time p \<and> c_lat c = Some (lat p) \<and> c_lon c = Some (lon p))
          \<and> lat p \<noteq> 0 \<and> lon p \<noteq> 0 \<and> - 90 \<le> lat p \<and> lat p \<le> 90
          \<and> - 180 \<le> lon p \<and> lon p \<le> 180 \<and> event_time p = tp_time p div 1000"
    unfolding set_trackOf by (auto simp: trackPointOf_Some)
  also have "(\<exists>c\<in>set ?cs. c_time c = tp_time p \<and> c_lat c = Some (lat p)
                \<and> c_lon c = Some (lon p)) \<longleftrightarrow>
             ?la = Some (lat p) \<and> ?lo = Some (lon p)"
    unfolding coordinates_lookup_mem [OF dist] tbl by auto
  finally have mem: "p \<in> set (trackOf ?cs) \<longleftrightarrow>
          ?la = Some (lat p) \<and> ?lo = Some (lon p) \<and> event_time p = tp_time p div 1000"
    using valid by blast
  show ?thesis
    unfolding track_processResultData
    using mem valid trackOf_strictly_sorted [OF dist] by blast
qed


theorem track_characterisation_witness:
  "\<lparr>tp_time = 1000, lat = 5, lon = 7, event_time = 1\<rparr> \<in> set (track
     (processResultData ieee (\<lambda>v. case v of JNum x \<Rightarrow> Some x | _ \<Rightarrow> None)
        [\<lparr>r_imei = JUndefined, r_field = JStr ''longitude'', r_value = JNum 10, r_time = 2000\<rparr>,
         \<lparr>r_imei = JUndefined, r_field = JStr ''latitude'', r_value = JNum 5, r_time = 1000\<rparr>,
         \<lparr>r_imei = JUndefined, r_field = JStr ''latitude'', r_value = JNum 20, r_time = 2000\<rparr>,
         \<lparr>r_imei = JUndefined, r_field = JStr ''longitude'', r_value = JNum 7, r_time = 1000\<rparr>,
         \<lparr>r_imei = JUndefined, r_field = JStr ''latitude'', r_value = JNum 0, r_time = 3000\<rparr>,
         \<lparr>r_imei = JUndefined, r_field = JStr ''longitude'', r_value = JNum 55, r_time = 3000\<rparr>]
        ''2024-01-01T00:00:00Z'' ''2024-01-01T06:00:00Z'' [] False))
   \<and> \<lparr>tp_time = 3000, lat = 0, lon = 55, event_time = 3\<rparr> \<notin> set (track
     (processResultData ieee (\<lambda>v. case v of JNum x \<Rightarrow> Some x | _ \<Rightarrow> None)
        [\<lparr>r_imei = JUndefined, r_field = JStr ''longitude'', r_value = JNum 10, r_time = 2000\<rparr>,
         \<lparr>r_imei = JUndefined, r_field = JStr ''latitude'', r_value = JNum 5, r_time = 1000\<rparr>,
         \<lparr>r_imei = JUndefined, r_field = JStr ''latitude'', r_value = JNum 20, r_time = 2000\<rparr>,
         \<lparr>r_imei = JUndefined, r_field = JStr ''longitude'', r_value = JNum 7, r_time = 1000\<rparr>,
         \<lparr>r_imei = JUndefined, r_field = JStr ''latitude'', r_value = JNum 0, r_time = 3000\<rparr>,
         \<lparr>r_imei = JUndefined, r_field = JStr ''longitude'', r_value = JNum 55, r_time = 3000\<rparr>]
        ''2024-01-01T00:00:00Z'' ''2024-01-01T06:00:00Z'' [] False))
   \<and> sorted_wrt (<) (map tp_time (track
     (processResultData ieee (\<lambda>v. case v of JNum x \<Rightarrow> Some x | _ \<Rightarrow> None)
        [\<lparr>r_imei = JUndefined, r_field = JStr ''longitude'', r_value = JNum 10, r_time = 2000\<rparr>,
         \<lparr>r_imei = JUndefined, r_field = JStr ''latitude'', r_value = JNum 5, r_time = 1000\<rparr>,
         \<lparr>r_imei = JUndefined, r_field = JStr ''latitude'', r_value = JNum 20, r_time = 2000\<rparr>,
         \<lparr>r_imei = JUndefined, r_field = JStr ''longitude'', r_value = JNum 7, r_time = 1000\<rparr>,
         \<lparr>r_imei = JUndefined, r_field = JStr ''latitude'', r_value = JNum 0, r_time = 3000\<rparr>,
         \<lparr>r_imei = JUndefined, r_field = JStr ''longitude'', r_value = JNum 55, r_time = 3000\<rparr>]
        ''2024-01-01T00:00:00Z'' ''2024-01-01T06:00:00Z'' [] False)))"
  using track_characterisation
          [of "\<lparr>tp_time = 1000, lat = 5, lon = 7, event_time = 1\<rparr>" ieee
              "\<lambda>v. case v of JNum x \<Rightarrow> Some x | _ \<Rightarrow> None"
              "[\<lparr>r_imei = JUndefined, r_field = JStr ''longitude'', r_value = JNum 10, r_time = 2000\<rparr>,
         \<lparr>r_imei = JUndefined, r_field = JStr ''latitude'', r_value = JNum 5, r_time = 1000\<rparr>,
         \<lparr>r_imei = JUndefined, r_field = JStr ''latitude'', r_value = JNum 20, r_time = 2000\<rparr>,
         \<lparr>r_imei = JUndefined, r_field = JStr ''longitude'', r_value = JNum 7, r_time = 1000\<rparr>,
         \<lparr>r_imei = JUndefined, r_field = JStr ''latitude'', r_value = JNum 0, r_time = 3000\<rparr>,
         \<lparr>r_imei = JUndefined, r_field = JStr ''longitude'', r_value = JNum 55, r_time = 3000\<rparr>]"
              "''2024-01-01T00:00:00Z''" "''2024-01-01T06:00:00Z''" "[]" False]
        track_characterisation
          [of "\<lparr>tp_time = 3000, lat = 0, lon = 55, event_time = 3\<rparr>" ieee
              "\<lambda>v. case v of JNum x \<Rightarrow> Some x | _ \<Rightarrow> None"
              "[\<lparr>r_imei = JUndefined, r_field = JStr ''longitude'', r_value = JNum 10, r_time = 2000\<rparr>,
         \<lparr>r_imei = JUndefined, r_field = JStr ''latitude'', r_value = JNum 5, r_time = 1000\<rparr>,
         \<lparr>r_imei = JUndefined, r_field = JStr ''latitude'', r_value = JNum 20, r_time = 2000\<rparr>,
         \<lparr>r_imei = JUndefined, r_field = JStr ''longitude'', r_value = JNum 7, r_time = 1000\<rparr>,
         \<lparr>r_imei = JUndefined, r_field = JStr ''latitude'', r_value = JNum 0, r_time = 3000\<rparr>,
         \<lparr>r_imei = JUndefined, r_field = JStr ''longitude'', r_value = JNum 55, r_time = 3000\<rparr>]"
              "''2024-01-01T00:00:00Z''" "''2024-01-01T06:00:00Z''" "[]" False]
  by (simp add: coordinateAt_def validCoordinate_def)

lemma track_example:
  "track
     (processResultData ieee (\<lambda>v. case v of JNum x \<Rightarrow> Some x | _ \<Rightarrow> None)
        [\<lparr>r_imei = JUndefined, r_field = JStr ''longitude'', r_value = JNum 10, r_time = 2000\<rparr>,
         \<lparr>r_imei = JUndefined, r_field = JStr ''latitude'', r_value = JNum 5, r_time = 1000\<rparr>,
         \<lparr>r_imei = JUndefined, r_field = JStr ''latitude'', r_value = JNum 20, r_time = 2000\<rparr>,
         \<lparr>r_imei = JUndefined, r_field = JStr ''longitude'', r_value = JNum 7, r_time = 1000\<rparr>,
         \<lparr>r_imei = JUndefined, r_field = JStr ''latitude'', r_value = JNum 0, r_time = 3000\<rparr>,
         \<lparr>r_imei = JUndefined, r_field = JStr ''longitude'', r_value = JNum 55, r_time = 3000\<rparr>]
        ''2024-01-01T00:00:00Z'' ''2024-01-01T06:00:00Z'' [] False)
   = [\<lparr>tp_time = 1000, lat = 5, lon = 7, event_time = 1\<rparr>,
      \<lparr>tp_time = 2000, lat = 20, lon = 10, event_time = 2\<rparr>]"
  by (simp add: processResultData_def processRecord_def Let_def trackOf_def trackPointOf_def
        List.map_filter_simps)

end
